theory Spec2Isabelle
  imports Main "HOL-Library.Sublist"
begin

section \<open>The host's regular expressions\<close>

text \<open>
  picomatch assembles the source text of a regular expression and hands it to the host's
  \<^verbatim>\<open>new RegExp(source, flags)\<close>; matching is \<^verbatim>\<open>regex.exec(string)\<close>. Both belong to the
  JavaScript engine, not to the repository. For patterns without flags they are modelled
  here, over 8-bit characters: a syntax tree \<open>rx\<close>, a backtracking matcher in the
  continuation style of the ECMAScript specification, and a one-pass reader of the
  pattern text. Whether a match exists is all that \<^verbatim>\<open>exec\<close> is used for, so captures are
  not recorded. What this model does not cover is left to the host, a parameter of
  the embedding (see \<open>RegExp\<close> below).
\<close>

datatype gkind = Capture | NonCapture | LookAhead | NegLookAhead
datatype qkind = QStar | QPlus | QOpt

datatype rx =
    Chr char
  | Dot
  | Cls bool "(char \<times> char) list"
  | Bol
  | Eol
  | Skip
  | Seq rx rx
  | Alt rx rx
  | Quant qkind bool rx
  | Grp gkind rx

type_synonym mstate = "string \<times> string"

definition is_line_terminator :: "char \<Rightarrow> bool" where
  "is_line_terminator c = (c = CHR 0x0A \<or> c = CHR 0x0D)"

definition in_ranges :: "(char \<times> char) list \<Rightarrow> char \<Rightarrow> bool" where
  "in_ranges rs c = list_ex (\<lambda>(lo, hi). (of_char lo :: nat) \<le> of_char c \<and> (of_char c :: nat) \<le> of_char hi) rs"

definition one_char :: "(char \<Rightarrow> bool) \<Rightarrow> mstate \<Rightarrow> (mstate \<Rightarrow> bool) \<Rightarrow> bool" where
  "one_char p st k = (case snd st of [] \<Rightarrow> False | x # xs \<Rightarrow> p x \<and> k (x # fst st, xs))"

primrec repeat :: "(mstate \<Rightarrow> (mstate \<Rightarrow> bool) \<Rightarrow> bool) \<Rightarrow> nat \<Rightarrow> mstate \<Rightarrow> (mstate \<Rightarrow> bool) \<Rightarrow> bool" where
  "repeat f 0 st k = k st"
| "repeat f (Suc n) st k =
     (k st \<or> f st (\<lambda>st'. length (snd st') < length (snd st) \<and> repeat f n st' k))"

primrec matches :: "rx \<Rightarrow> mstate \<Rightarrow> (mstate \<Rightarrow> bool) \<Rightarrow> bool" where
  "matches (Chr c) = one_char (\<lambda>x. x = c)"
| "matches Dot = one_char (\<lambda>x. \<not> is_line_terminator x)"
| "matches (Cls neg rs) = one_char (\<lambda>x. in_ranges rs x \<noteq> neg)"
| "matches Bol = (\<lambda>st k. fst st = [] \<and> k st)"
| "matches Eol = (\<lambda>st k. snd st = [] \<and> k st)"
| "matches Skip = (\<lambda>st k. k st)"
| "matches (Seq a b) = (\<lambda>st k. matches a st (\<lambda>st'. matches b st' k))"
| "matches (Alt a b) = (\<lambda>st k. matches a st k \<or> matches b st k)"
| "matches (Quant q lazy r) =
     (case q of
        QStar \<Rightarrow> (\<lambda>st k. repeat (matches r) (length (snd st)) st k)
      | QPlus \<Rightarrow> (\<lambda>st k. matches r st (\<lambda>st'. repeat (matches r) (length (snd st')) st' k))
      | QOpt \<Rightarrow> (\<lambda>st k. matches r st k \<or> k st))"
| "matches (Grp g r) =
     (case g of
        LookAhead \<Rightarrow> (\<lambda>st k. matches r st (\<lambda>_. True) \<and> k st)
      | NegLookAhead \<Rightarrow> (\<lambda>st k. \<not> matches r st (\<lambda>_. True) \<and> k st)
      | _ \<Rightarrow> matches r)"

definition rx_exec :: "rx \<Rightarrow> string \<Rightarrow> bool" where
  "rx_exec r s = list_ex (\<lambda>i. matches r (rev (take i s), drop i s) (\<lambda>_. True)) [0..<Suc (length s)]"


subsection \<open>Reading the pattern text\<close>

text \<open>
  The reader answers \<open>Read\<close> with the result, \<open>Malformed\<close> where the engine raises a
  SyntaxError, and \<open>Beyond\<close> for syntax that this model does not cover (braces,
  back references, named groups, look-behind, word boundaries, hexadecimal and
  unicode escapes): the host decides about such patterns.
\<close>

datatype 'a reading = Read 'a | Malformed | Beyond

datatype tag = Bare | Greedy | Closed

type_synonym frame = "rx list \<times> (rx \<times> tag) list"

datatype cpend = PNone | PChar char | PDash char

datatype mode =
    MNormal
  | MEsc
  | MOpen
  | MOpenQ
  | MClass bool bool "(char \<times> char) list" cpend
  | MClassEsc bool "(char \<times> char) list" cpend

type_synonym pstate = "mode \<times> frame \<times> (gkind \<times> frame) list"

definition seq_of :: "rx list \<Rightarrow> rx" where
  "seq_of rs = foldr Seq rs Skip"

definition close :: "frame \<Rightarrow> rx" where
  "close f = foldl (\<lambda>acc a. Alt a acc) (seq_of (rev (map fst (snd f)))) (fst f)"

definition push :: "rx \<Rightarrow> tag \<Rightarrow> frame \<Rightarrow> frame" where
  "push r t f = (fst f, (r, t) # snd f)"

definition is_alnum :: "char \<Rightarrow> bool" where
  "is_alnum c = (let n = (of_char c :: nat) in
     (48 \<le> n \<and> n \<le> 57) \<or> (65 \<le> n \<and> n \<le> 90) \<or> (97 \<le> n \<and> n \<le> 122))"

definition class_escape :: "char \<Rightarrow> (char \<times> char) list option" where
  "class_escape c =
     (if c = CHR ''d'' then Some [(CHR ''0'', CHR ''9'')]
      else if c = CHR ''w'' then
        Some [(CHR ''a'', CHR ''z''), (CHR ''A'', CHR ''Z''), (CHR ''0'', CHR ''9''), (CHR ''_'', CHR ''_'')]
      else if c = CHR ''s'' then
        Some [(CHR 0x09, CHR 0x0D), (CHR 0x20, CHR 0x20), (CHR 0xA0, CHR 0xA0)]
      else None)"

definition control_escape :: "char \<Rightarrow> char option" where
  "control_escape c =
     (if c = CHR ''t'' then Some (CHR 0x09)
      else if c = CHR ''n'' then Some (CHR 0x0A)
      else if c = CHR ''v'' then Some (CHR 0x0B)
      else if c = CHR ''f'' then Some (CHR 0x0C)
      else if c = CHR ''r'' then Some (CHR 0x0D)
      else None)"

definition escape_atom :: "char \<Rightarrow> rx reading" where
  "escape_atom c =
     (case class_escape c of
        Some rs \<Rightarrow> Read (Cls False rs)
      | None \<Rightarrow>
          if c = CHR ''D'' then Read (Cls True [(CHR ''0'', CHR ''9'')])
          else if c = CHR ''W'' then Read (Cls True (the (class_escape CHR ''w'')))
          else if c = CHR ''S'' then Read (Cls True (the (class_escape CHR ''s'')))
          else (case control_escape c of
                  Some x \<Rightarrow> Read (Chr x)
                | None \<Rightarrow> if is_alnum c then Beyond else Read (Chr c)))"

definition quantify :: "qkind \<Rightarrow> frame \<Rightarrow> frame reading" where
  "quantify q f =
     (case snd f of
        (r, Bare) # is \<Rightarrow> Read (fst f, (Quant q False r, Greedy) # is)
      | _ \<Rightarrow> Malformed)"

definition question :: "frame \<Rightarrow> frame reading" where
  "question f =
     (case snd f of
        (r, Bare) # is \<Rightarrow> Read (fst f, (Quant QOpt False r, Greedy) # is)
      | (Quant q lazy r, Greedy) # is \<Rightarrow> Read (fst f, (Quant q True r, Closed) # is)
      | _ \<Rightarrow> Malformed)"

definition in_frame :: "frame reading \<Rightarrow> (gkind \<times> frame) list \<Rightarrow> pstate reading" where
  "in_frame r cs = (case r of Read f \<Rightarrow> Read (MNormal, f, cs) | Malformed \<Rightarrow> Malformed | Beyond \<Rightarrow> Beyond)"

definition normal :: "frame \<Rightarrow> (gkind \<times> frame) list \<Rightarrow> char \<Rightarrow> pstate reading" where
  "normal f cs c =
     (if c = CHR 0x5C then Read (MEsc, f, cs)
      else if c = CHR ''['' then Read (MClass True False [] PNone, f, cs)
      else if c = CHR ''('' then Read (MOpen, f, cs)
      else if c = CHR '')'' then
        (case cs of
           [] \<Rightarrow> Malformed
         | (g, parent) # cs' \<Rightarrow> Read (MNormal, push (Grp g (close f)) Bare parent, cs'))
      else if c = CHR ''|'' then Read (MNormal, (seq_of (rev (map fst (snd f))) # fst f, []), cs)
      else if c = CHR ''*'' then in_frame (quantify QStar f) cs
      else if c = CHR ''+'' then in_frame (quantify QPlus f) cs
      else if c = CHR ''?'' then in_frame (question f) cs
      else if c = CHR ''{'' then Beyond
      else if c = CHR ''^'' then Read (MNormal, push Bol Closed f, cs)
      else if c = CHR ''$'' then Read (MNormal, push Eol Closed f, cs)
      else if c = CHR ''.'' then Read (MNormal, push Dot Bare f, cs)
      else Read (MNormal, push (Chr c) Bare f, cs))"

definition flush :: "cpend \<Rightarrow> (char \<times> char) list" where
  "flush p = (case p of PNone \<Rightarrow> [] | PChar a \<Rightarrow> [(a, a)]
     | PDash a \<Rightarrow> [(a, a), (CHR ''-'', CHR ''-'')])"

definition class_atom :: "bool \<Rightarrow> bool \<Rightarrow> (char \<times> char) list \<Rightarrow> cpend \<Rightarrow> char \<Rightarrow> mode reading" where
  "class_atom dash neg rs p x =
     (case p of
        PNone \<Rightarrow> Read (MClass False neg rs (PChar x))
      | PChar a \<Rightarrow>
          if dash then Read (MClass False neg rs (PDash a))
          else Read (MClass False neg (rs @ [(a, a)]) (PChar x))
      | PDash a \<Rightarrow>
          if (of_char a :: nat) \<le> of_char x then Read (MClass False neg (rs @ [(a, x)]) PNone)
          else Malformed)"

definition in_mode :: "mode reading \<Rightarrow> frame \<Rightarrow> (gkind \<times> frame) list \<Rightarrow> pstate reading" where
  "in_mode r f cs = (case r of Read md \<Rightarrow> Read (md, f, cs) | Malformed \<Rightarrow> Malformed | Beyond \<Rightarrow> Beyond)"

definition class_escaped :: "bool \<Rightarrow> (char \<times> char) list \<Rightarrow> cpend \<Rightarrow> char \<Rightarrow> mode reading" where
  "class_escaped neg rs p e =
     (case class_escape e of
        Some cl \<Rightarrow> Read (MClass False neg (rs @ flush p @ cl) PNone)
      | None \<Rightarrow>
          (case control_escape e of
             Some x \<Rightarrow> class_atom False neg rs p x
           | None \<Rightarrow>
               if e = CHR ''b'' then class_atom False neg rs p (CHR 0x08)
               else if is_alnum e then Beyond
               else class_atom False neg rs p e))"

fun consume :: "pstate \<Rightarrow> char \<Rightarrow> pstate reading" where
  "consume (MNormal, f, cs) c = normal f cs c"
| "consume (MEsc, f, cs) c =
     (case escape_atom c of
        Read a \<Rightarrow> Read (MNormal, push a Bare f, cs)
      | Malformed \<Rightarrow> Malformed
      | Beyond \<Rightarrow> Beyond)"
| "consume (MOpen, f, cs) c =
     (if c = CHR ''?'' then Read (MOpenQ, f, cs)
      else normal ([], []) ((Capture, f) # cs) c)"
| "consume (MOpenQ, f, cs) c =
     (if c = CHR '':'' then Read (MNormal, ([], []), (NonCapture, f) # cs)
      else if c = CHR ''='' then Read (MNormal, ([], []), (LookAhead, f) # cs)
      else if c = CHR ''!'' then Read (MNormal, ([], []), (NegLookAhead, f) # cs)
      else Beyond)"
| "consume (MClass fresh neg rs p, f, cs) c =
     (if fresh \<and> c = CHR ''^'' then Read (MClass False True rs p, f, cs)
      else if c = CHR '']'' then Read (MNormal, push (Cls neg (rs @ flush p)) Bare f, cs)
      else if c = CHR 0x5C then Read (MClassEsc neg rs p, f, cs)
      else in_mode (class_atom (c = CHR ''-'') neg rs p c) f cs)"
| "consume (MClassEsc neg rs p, f, cs) c = in_mode (class_escaped neg rs p c) f cs"

primrec feed :: "pstate \<Rightarrow> string \<Rightarrow> pstate reading" where
  "feed st [] = Read st"
| "feed st (c # cs) =
     (case consume st c of
        Read st' \<Rightarrow> feed st' cs
      | Malformed \<Rightarrow> Malformed
      | Beyond \<Rightarrow> Beyond)"

definition finish :: "pstate \<Rightarrow> rx reading" where
  "finish st =
     (case st of
        (MNormal, f, []) \<Rightarrow> Read (close f)
      | _ \<Rightarrow> Malformed)"

definition rx_read :: "string \<Rightarrow> rx reading" where
  "rx_read src =
     (case feed (MNormal, ([], []), []) src of
        Read st \<Rightarrow> finish st
      | Malformed \<Rightarrow> Malformed
      | Beyond \<Rightarrow> Beyond)"


section \<open>Values, options and the collaborators of picomatch\<close>

text \<open>
  A pattern or an input arrives as a JavaScript value: the code checks for arrays and
  strings itself. \<open>truthy\<close> is JavaScript's conversion to a boolean.
\<close>

datatype jsval = JUndefined | JNull | JBool bool | JNum int | JStr string | JArr "jsval list"

primrec truthy :: "jsval \<Rightarrow> bool" where
  "truthy JUndefined = False"
| "truthy JNull = False"
| "truthy (JBool b) = b"
| "truthy (JNum n) = (n \<noteq> 0)"
| "truthy (JStr s) = (s \<noteq> [])"
| "truthy (JArr xs) = True"

text \<open>The exceptions of the code are values.\<close>

datatype error = TypeError string | SyntaxError

text \<open>
  The options record. A field compared with \<^verbatim>\<open>=== true\<close> is \<open>True\<close> exactly for the value
  \<^verbatim>\<open>true\<close>; a field tested for truthiness is its truthiness; \<open>fastpaths\<close> is compared with
  \<^verbatim>\<open>false\<close>, so it keeps three values. A callback is named by a label, and calling it is
  recorded as an event: callbacks are taken to return normally and to leave the record
  they receive alone. An undefined \<^verbatim>\<open>options\<close> is \<open>no_options\<close>.
\<close>

type_synonym hook = string

record options =
  ignore :: jsval
  onMatch :: "hook option"
  onIgnore :: "hook option"
  onResult :: "hook option"
  format :: "(string \<Rightarrow> string) option"
  capture :: bool
  matchBase :: bool
  basename :: bool
  nocase :: bool
  flags :: "string option"
  contains :: bool
  strictSlashes :: bool
  fastpaths :: "bool option"
  debug :: bool
  cwd :: "string option"

definition no_options :: options where
  "no_options = \<lparr>ignore = JUndefined, onMatch = None, onIgnore = None, onResult = None,
     format = None, capture = False, matchBase = False, basename = False, nocase = False,
     flags = None, contains = False, strictSlashes = False, fastpaths = None, debug = False,
     cwd = None\<rparr>"

text \<open>The state of the Syntax Compiler; \<open>makeRe\<close> starts from a state without output.\<close>

record state =
  s_output :: "string option"
  negated :: bool
  s_fastpaths :: bool

record scanned =
  sc_base :: string
  sc_glob :: string

text \<open>
  The files \<^verbatim>\<open>parse.js\<close>, \<^verbatim>\<open>scan.js\<close> and \<^verbatim>\<open>utils.js\<close> are not part of the sources at hand, and
  \<^verbatim>\<open>path.basename\<close>, \<^verbatim>\<open>path.resolve\<close> and the working directory depend on the host. They are
  parameters of every function below: \<open>posix_cwd\<close> is the working directory as
  \<^verbatim>\<open>path.posix.resolve\<close> sees it. So is the host's engine for the regular expressions
  that the reader above does not cover and for every regular expression with flags:
  \<open>host_accepts src fl\<close> says whether \<^verbatim>\<open>new RegExp(src, fl)\<close> returns instead of raising a
  SyntaxError, and \<open>host_exec src fl i str\<close> is the index at which the match ends that
  \<^verbatim>\<open>exec\<close> finds in \<open>str\<close> when it starts at index \<open>i\<close>, if it finds one.
\<close>

record env =
  parse :: "string \<Rightarrow> options \<Rightarrow> state"
  parse_fastpaths :: "string \<Rightarrow> options \<Rightarrow> string option"
  scan :: "string \<Rightarrow> options \<Rightarrow> scanned"
  isWindows :: "options \<Rightarrow> bool"
  path_basename :: "string \<Rightarrow> string"
  path_resolve :: "string list \<Rightarrow> string"
  process_cwd :: string
  posix_cwd :: string
  host_accepts :: "string \<Rightarrow> string \<Rightarrow> bool"
  host_exec :: "string \<Rightarrow> string \<Rightarrow> nat \<Rightarrow> string \<Rightarrow> nat option"

text \<open>
  A regular expression object: its properties \<^verbatim>\<open>source\<close>, \<^verbatim>\<open>flags\<close> and \<^verbatim>\<open>lastIndex\<close>, the
  property \<^verbatim>\<open>state\<close> that \<open>makeRe\<close> attaches, and its reading \<open>re_prog\<close> where the reader
  covers it (\<open>None\<close>: the host matches).
\<close>

record regexp =
  source :: string
  re_flags :: string
  re_prog :: "rx option"
  lastIndex :: nat
  re_state :: "state option"

datatype match_val = MUndefined | MBool bool | MNull | MArray

primrec match_truthy :: "match_val \<Rightarrow> bool" where
  "match_truthy MUndefined = False"
| "match_truthy (MBool b) = b"
| "match_truthy MNull = False"
| "match_truthy MArray = True"

record tested =
  t_isMatch :: bool
  t_match :: match_val
  t_output :: string

record result =
  r_glob :: string
  r_state :: "state option"
  r_regex :: regexp
  r_posix :: bool
  r_input :: jsval
  r_output :: string
  r_match :: match_val
  r_isMatch :: bool

datatype event = Called hook result

datatype ret = RBool bool | RObj result

primrec ret_truthy :: "ret \<Rightarrow> bool" where
  "ret_truthy (RBool b) = b"
| "ret_truthy (RObj r) = True"

subsection \<open>\<^verbatim>\<open>new RegExp\<close> and \<^verbatim>\<open>exec\<close>\<close>

definition valid_flags :: "string \<Rightarrow> bool" where
  "valid_flags fl = (set fl \<subseteq> set ''dgimsuvy'' \<and> distinct fl
     \<and> \<not> (CHR ''u'' \<in> set fl \<and> CHR ''v'' \<in> set fl))"

text \<open>
  \<open>RegExp env src fl\<close> is \<^verbatim>\<open>new RegExp(src, fl)\<close>, with \<open>None\<close> for a SyntaxError. Flags
  other than the letters \<^verbatim>\<open>dgimsuvy\<close>, a repeated flag, and \<^verbatim>\<open>u\<close> together with \<^verbatim>\<open>v\<close> are
  errors. The object starts with \<^verbatim>\<open>lastIndex\<close> 0.
\<close>

definition hosted :: "env \<Rightarrow> string \<Rightarrow> string \<Rightarrow> regexp option" where
  "hosted env src fl =
     (if host_accepts env src fl
      then Some \<lparr>source = src, re_flags = fl, re_prog = None, lastIndex = 0, re_state = None\<rparr>
      else None)"

definition RegExp :: "env \<Rightarrow> string \<Rightarrow> string \<Rightarrow> regexp option" where
  "RegExp env src fl =
     (if \<not> valid_flags fl then None
      else if fl \<noteq> [] then hosted env src fl
      else (case rx_read src of
              Read r \<Rightarrow>
                Some \<lparr>source = src, re_flags = fl, re_prog = Some r, lastIndex = 0, re_state = None\<rparr>
            | Malformed \<Rightarrow> None
            | Beyond \<Rightarrow> hosted env src fl))"

text \<open>
  \<^verbatim>\<open>regex.exec(str)\<close> starts at \<^verbatim>\<open>lastIndex\<close> when the regular expression has the flag \<^verbatim>\<open>g\<close>
  or \<^verbatim>\<open>y\<close>, and at 0 otherwise. \<open>exec\<close> is what it returns, an array or \<^verbatim>\<open>null\<close>, and
  \<open>exec_after\<close> the object afterwards: with \<^verbatim>\<open>g\<close> or \<^verbatim>\<open>y\<close>, \<^verbatim>\<open>lastIndex\<close> is the end of the match,
  or 0 after a failure.
\<close>

definition from_lastIndex :: "regexp \<Rightarrow> bool" where
  "from_lastIndex regex = (CHR ''g'' \<in> set (re_flags regex) \<or> CHR ''y'' \<in> set (re_flags regex))"

definition exec_end :: "env \<Rightarrow> regexp \<Rightarrow> string \<Rightarrow> nat option" where
  "exec_end env regex str =
     host_exec env (source regex) (re_flags regex)
       (if from_lastIndex regex then lastIndex regex else 0) str"

definition exec :: "env \<Rightarrow> regexp \<Rightarrow> string \<Rightarrow> match_val" where
  "exec env regex str =
     (case re_prog regex of
        Some r \<Rightarrow> if rx_exec r str then MArray else MNull
      | None \<Rightarrow> (case exec_end env regex str of Some e \<Rightarrow> MArray | None \<Rightarrow> MNull))"

definition exec_after :: "env \<Rightarrow> regexp \<Rightarrow> string \<Rightarrow> regexp" where
  "exec_after env regex str =
     (if from_lastIndex regex
      then (case exec_end env regex str of
              Some e \<Rightarrow> regex\<lparr>lastIndex := e\<rparr>
            | None \<Rightarrow> regex\<lparr>lastIndex := 0\<rparr>)
      else regex)"

text \<open>The regular expression literal \<^verbatim>\<open>/$^/\<close> of \<open>toRegex\<close>.\<close>

definition fallback :: regexp where
  "fallback = \<lparr>source = ''$^'', re_flags = [], re_prog = Some (Seq Eol (Seq Bol Skip)),
     lastIndex = 0, re_state = None\<rparr>"

subsection \<open>\<^verbatim>\<open>path.posix\<close>\<close>

fun split_slash :: "string \<Rightarrow> string list" where
  "split_slash [] = [[]]"
| "split_slash (c # cs) =
     (case split_slash cs of
        [] \<Rightarrow> (if c = CHR ''/'' then [[], []] else [[c]])
      | seg # rest \<Rightarrow> (if c = CHR ''/'' then [] # seg # rest else (c # seg) # rest))"

definition join_slash :: "string list \<Rightarrow> string" where
  "join_slash segs = (case segs of [] \<Rightarrow> [] | x # xs \<Rightarrow> foldl (\<lambda>acc y. acc @ ''/'' @ y) x xs)"

definition segment :: "bool \<Rightarrow> string list \<Rightarrow> string \<Rightarrow> string list" where
  "segment allowAboveRoot res seg =
     (if seg = [] \<or> seg = ''.'' then res
      else if seg = ''..'' then
        (if res \<noteq> [] \<and> last res \<noteq> ''..'' then butlast res
         else if allowAboveRoot then res @ [''..'']
         else res)
      else res @ [seg])"

definition normalizeString :: "string \<Rightarrow> bool \<Rightarrow> string" where
  "normalizeString path allowAboveRoot =
     join_slash (foldl (segment allowAboveRoot) [] (split_slash path))"



primrec resolve_walk :: "string list \<Rightarrow> string \<Rightarrow> string \<times> bool" where
  "resolve_walk [] resolvedPath = (resolvedPath, False)"
| "resolve_walk (p # ps) resolvedPath =
     (if p = [] then resolve_walk ps resolvedPath
      else if hd p = CHR ''/'' then (p @ ''/'' @ resolvedPath, True)
      else resolve_walk ps (p @ ''/'' @ resolvedPath))"

definition resolve_from :: "string \<Rightarrow> string list \<Rightarrow> string" where
  "resolve_from dir args =
     (case resolve_walk (rev args @ [dir]) [] of
        (resolvedPath, resolvedAbsolute) \<Rightarrow>
          let p = normalizeString resolvedPath (\<not> resolvedAbsolute)
          in if resolvedAbsolute then ''/'' @ p
             else if p \<noteq> [] then p else ''.'')"


definition posix_basename :: "string \<Rightarrow> string" where
  "posix_basename path =
     rev (takeWhile (\<lambda>c. c \<noteq> CHR ''/'') (dropWhile (\<lambda>c. c = CHR ''/'') (rev path)))"


section \<open>picomatch.js\<close>

definition toPosixSlashes :: "string \<Rightarrow> string" where
  "toPosixSlashes str = map (\<lambda>c. if c = CHR 0x5C then CHR ''/'' else c) str"

subsection \<open>\<open>toRegex\<close> and \<open>makeRe\<close>\<close>

text \<open>The flags \<^verbatim>\<open>opts.flags || (opts.nocase ? 'i' : '')\<close>.\<close>

definition regex_flags :: "options \<Rightarrow> string" where
  "regex_flags opts =
     (case flags opts of
        Some fl \<Rightarrow> if fl \<noteq> [] then fl else if nocase opts then ''i'' else []
      | None \<Rightarrow> if nocase opts then ''i'' else [])"

definition toRegex :: "env \<Rightarrow> string \<Rightarrow> options \<Rightarrow> error + regexp" where
  "toRegex env src opts =
     (case RegExp env src (regex_flags opts) of
        Some regex \<Rightarrow> Inr regex
      | None \<Rightarrow> if debug opts then Inl SyntaxError else Inr fallback)"

text \<open>The test \<^verbatim>\<open>/[-![$*+?^{}(|)\\\]]/\<close> for a glob character.\<close>

definition glob_chars :: "char list" where
  "glob_chars = CHR 0x5C # ''-![$*+?^{}(|)]''"

definition has_glob_chars :: "string \<Rightarrow> bool" where
  "has_glob_chars input = list_ex (\<lambda>c. c \<in> set glob_chars) input"

text \<open>The replacement \<^verbatim>\<open>input.replace(/([./])/g, '\\$1')\<close>.\<close>

definition escape_literal :: "string \<Rightarrow> string" where
  "escape_literal input =
     concat (map (\<lambda>c. if c = CHR ''.'' \<or> c = CHR ''/'' then [CHR 0x5C, c] else [c]) input)"

text \<open>An undefined value inside a template literal reads \<^verbatim>\<open>undefined\<close>.\<close>

definition interpolate :: "string option \<Rightarrow> string" where
  "interpolate v = (case v of Some str \<Rightarrow> str | None \<Rightarrow> ''undefined'')"

datatype made = Output "string option" | Regex regexp

definition compile_output :: "env \<Rightarrow> string \<Rightarrow> options \<Rightarrow> state \<times> string option" where
  "compile_output env input opts =
     (let state0 = \<lparr>s_output = None, negated = False, s_fastpaths = True\<rparr>;
          output1 =
            (if options.fastpaths opts \<noteq> Some False
                \<and> (case input of [] \<Rightarrow> False | c # _ \<Rightarrow> c = CHR ''.'' \<or> c = CHR ''*'')
             then (case parse_fastpaths env input opts of
                     Some out \<Rightarrow>
                       if out \<noteq> [] \<and> \<not> strictSlashes opts then Some (out @ [CHR 0x5C, CHR ''/'', CHR ''?''])
                       else Some out
                   | None \<Rightarrow> None)
             else None);
          output2 =
            (if output1 = None \<and> \<not> has_glob_chars input then Some (escape_literal input)
             else output1)
      in if output2 = None then (let st = parse env input opts in (st, s_output st))
         else (state0, output2))"

definition assemble :: "options \<Rightarrow> state \<Rightarrow> string option \<Rightarrow> string" where
  "assemble opts st out =
     (let prefix = (if contains opts then [] else ''^'');
          suffix = (if contains opts then [] else ''$'');
          src = prefix @ ''(?:'' @ interpolate out @ '')'' @ suffix
      in if negated st then ''^(?!'' @ src @ '').*$'' else src)"

text \<open>The step \<^verbatim>\<open>if (input.startsWith('./')) input = input.slice(2)\<close>.\<close>

definition strip_dot_slash :: "string \<Rightarrow> string" where
  "strip_dot_slash input = (if prefix ''./'' input then drop 2 input else input)"

definition makeRe :: "env \<Rightarrow> jsval \<Rightarrow> options \<Rightarrow> bool \<Rightarrow> bool \<Rightarrow> error + made" where
  "makeRe env input opts returnOutput returnState =
     (case input of
        JStr str \<Rightarrow>
          if str = [] then Inl (TypeError ''Expected a non-empty string'')
          else
            (case compile_output env (strip_dot_slash str) opts of
               (st, out) \<Rightarrow>
                 if returnOutput then Inr (Output out)
                 else (case toRegex env (assemble opts st out) opts of
                         Inl err \<Rightarrow> Inl err
                       | Inr regex \<Rightarrow>
                           Inr (Regex (if returnState then regex\<lparr>re_state := Some st\<rparr> else regex))))
      | _ \<Rightarrow> Inl (TypeError ''Expected a non-empty string''))"

subsection \<open>\<open>matchBase\<close> and \<open>test\<close>\<close>

definition matchBase :: "env \<Rightarrow> string \<Rightarrow> regexp + jsval \<Rightarrow> options \<Rightarrow> bool option \<Rightarrow> error + bool" where
  "matchBase env input pattern opts posix =
     (case (case pattern of
              Inl regex \<Rightarrow> Inr (Regex regex)
            | Inr pat \<Rightarrow> makeRe env pat opts False False) of
        Inl err \<Rightarrow> Inl err
      | Inr (Output out) \<Rightarrow> Inl (TypeError ''regex.exec is not a function'')
      | Inr (Regex regex) \<Rightarrow>
          let px = (case posix of Some b \<Rightarrow> b | None \<Rightarrow> isWindows env opts);
              input' = (if px then posix_basename input else path_basename env input)
          in Inr (match_truthy (exec env regex input')))"

definition test :: "env \<Rightarrow> jsval \<Rightarrow> regexp \<Rightarrow> options \<Rightarrow> string option \<Rightarrow> bool \<Rightarrow> error + tested" where
  "test env input regex opts glob posix =
     (case input of
        JStr str \<Rightarrow>
          if str = [] then Inr \<lparr>t_isMatch = False, t_match = MUndefined, t_output = []\<rparr>
          else
            let fmt = (case format opts of
                         Some f \<Rightarrow> Some f
                       | None \<Rightarrow> if posix then Some toPosixSlashes else None);
                match0 = (Some str = glob);
                out = (case fmt of Some f \<Rightarrow> f str | None \<Rightarrow> str);
                match1 = (if match0 then True else Some out = glob)
            in if \<not> match1 \<or> capture opts then
                 (if options.matchBase opts \<or> basename opts then
                    (case matchBase env str (Inl regex) opts (Some posix) of
                       Inl err \<Rightarrow> Inl err
                     | Inr b \<Rightarrow> Inr \<lparr>t_isMatch = b, t_match = MBool b, t_output = out\<rparr>)
                  else
                    Inr \<lparr>t_isMatch = match_truthy (exec env regex out), t_match = exec env regex out,
                         t_output = out\<rparr>)
               else Inr \<lparr>t_isMatch = True, t_match = MBool True, t_output = out\<rparr>
      | _ \<Rightarrow> Inl (TypeError ''Expected input to be a string''))"

text \<open>
  The regular expression object after \<open>test\<close>: it is run once, on the base name or on the
  formatted input, unless the input is empty or equals the pattern.
\<close>

definition test_after :: "env \<Rightarrow> jsval \<Rightarrow> regexp \<Rightarrow> options \<Rightarrow> string option \<Rightarrow> bool \<Rightarrow> regexp" where
  "test_after env input regex opts glob posix =
     (case input of
        JStr str \<Rightarrow>
          if str = [] then regex
          else
            let fmt = (case format opts of
                         Some f \<Rightarrow> Some f
                       | None \<Rightarrow> if posix then Some toPosixSlashes else None);
                match0 = (Some str = glob);
                out = (case fmt of Some f \<Rightarrow> f str | None \<Rightarrow> str);
                match1 = (if match0 then True else Some out = glob)
            in if \<not> match1 \<or> capture opts then
                 (if options.matchBase opts \<or> basename opts then
                    exec_after env regex (if posix then posix_basename str else path_basename env str)
                  else exec_after env regex out)
               else regex
      | _ \<Rightarrow> regex)"

subsection \<open>The matcher\<close>

text \<open>
  The factory returns a closure. It is represented by what the closure captures:
  \<open>ArrayMatcher\<close> holds the matchers \<^verbatim>\<open>fns\<close> of an array of patterns, \<open>Matcher\<close> the
  variables \<^verbatim>\<open>glob\<close>, \<^verbatim>\<open>state\<close>, \<^verbatim>\<open>regex\<close>, \<^verbatim>\<open>posix\<close>, \<^verbatim>\<open>isIgnored\<close> and \<^verbatim>\<open>options\<close> of a single
  pattern together with the property \<^verbatim>\<open>matcher.state\<close>, and \<open>NeverIgnored\<close> is
  \<^verbatim>\<open>() => false\<close>. \<open>call\<close> applies a closure to an input and the flag \<^verbatim>\<open>returnObject\<close>, and
  gives what it returns or throws together with the callbacks it has called, in order.
  A regular expression with the flag \<^verbatim>\<open>g\<close> or \<^verbatim>\<open>y\<close> keeps its \<^verbatim>\<open>lastIndex\<close> from one call to
  the next, so a closure is an object with a state: \<open>call\<close> is a call in the state given,
  and \<open>after\<close> is the closure that the call leaves.
\<close>

datatype matcher =
    NeverIgnored
  | ArrayMatcher "matcher list"
  | Matcher string "state option" regexp bool matcher options "state option"

definition called :: "hook option \<Rightarrow> result \<Rightarrow> event list" where
  "called h res = (case h of Some f \<Rightarrow> [Called f res] | None \<Rightarrow> [])"

fun call :: "env \<Rightarrow> matcher \<Rightarrow> jsval \<Rightarrow> bool \<Rightarrow> (error + ret) \<times> event list"
  and call_first :: "env \<Rightarrow> matcher list \<Rightarrow> jsval \<Rightarrow> (error + ret) \<times> event list" where
  "call env NeverIgnored input returnObject = (Inr (RBool False), [])"
| "call env (ArrayMatcher fns) input returnObject = call_first env fns input"
| "call env (Matcher glob st regex posix isIgnored opts attached) input returnObject =
     (case test env input regex opts (Some glob) posix of
        Inl err \<Rightarrow> (Inl err, [])
      | Inr t \<Rightarrow>
          let res = \<lparr>r_glob = glob, r_state = st,
                     r_regex = test_after env input regex opts (Some glob) posix, r_posix = posix,
                     r_input = input, r_output = t_output t, r_match = t_match t,
                     r_isMatch = t_isMatch t\<rparr>;
              no = (if returnObject then RObj (res\<lparr>r_isMatch := False\<rparr>) else RBool False);
              ev1 = called (onResult opts) res
          in if \<not> t_isMatch t then (Inr no, ev1)
             else
               (case call env isIgnored input False of
                  (Inl err, ev2) \<Rightarrow> (Inl err, ev1 @ ev2)
                | (Inr ignored, ev2) \<Rightarrow>
                    if ret_truthy ignored then (Inr no, ev1 @ ev2 @ called (onIgnore opts) res)
                    else (Inr (if returnObject then RObj res else RBool True),
                          ev1 @ ev2 @ called (onMatch opts) res)))"
| "call_first env [] str = (Inr (RBool False), [])"
| "call_first env (isMatch # fns) str =
     (case call env isMatch str False of
        (Inl err, ev) \<Rightarrow> (Inl err, ev)
      | (Inr st, ev) \<Rightarrow>
          if ret_truthy st then (Inr st, ev)
          else (case call_first env fns str of (r, ev') \<Rightarrow> (r, ev @ ev')))"

fun after :: "env \<Rightarrow> matcher \<Rightarrow> jsval \<Rightarrow> matcher"
  and after_first :: "env \<Rightarrow> matcher list \<Rightarrow> jsval \<Rightarrow> matcher list" where
  "after env NeverIgnored input = NeverIgnored"
| "after env (ArrayMatcher fns) input = ArrayMatcher (after_first env fns input)"
| "after env (Matcher glob st regex posix isIgnored opts attached) input =
     (case test env input regex opts (Some glob) posix of
        Inl err \<Rightarrow> Matcher glob st regex posix isIgnored opts attached
      | Inr t \<Rightarrow>
          Matcher glob st (test_after env input regex opts (Some glob) posix) posix
            (if t_isMatch t then after env isIgnored input else isIgnored) opts attached)"
| "after_first env [] str = []"
| "after_first env (isMatch # fns) str =
     after env isMatch str #
       (case fst (call env isMatch str False) of
          Inl err \<Rightarrow> fns
        | Inr st \<Rightarrow> if ret_truthy st then fns else after_first env fns str)"

primrec sequence :: "(error + 'a) list \<Rightarrow> error + 'a list" where
  "sequence [] = Inr []"
| "sequence (x # xs) =
     (case x of
        Inl err \<Rightarrow> Inl err
      | Inr v \<Rightarrow> (case sequence xs of Inl err \<Rightarrow> Inl err | Inr vs \<Rightarrow> Inr (v # vs)))"

function (sequential) picomatch :: "env \<Rightarrow> jsval \<Rightarrow> options \<Rightarrow> bool \<Rightarrow> error + matcher" where
  "picomatch env (JArr globs) opts returnState =
     (case sequence (map (\<lambda>input. picomatch env input opts returnState) globs) of
        Inl err \<Rightarrow> Inl err
      | Inr fns \<Rightarrow> Inr (ArrayMatcher fns))"
| "picomatch env (JStr str) opts returnState =
     (if str = [] then Inl (TypeError ''Expected pattern to be a non-empty string'')
      else
        (case makeRe env (JStr str) opts False True of
           Inl err \<Rightarrow> Inl err
         | Inr (Output out) \<Rightarrow> Inl (TypeError ''regex.exec is not a function'')
         | Inr (Regex regex) \<Rightarrow>
             (case (if truthy (ignore opts)
                    then picomatch env (ignore opts) (opts\<lparr>ignore := JNull, onMatch := None\<rparr>) returnState
                    else Inr NeverIgnored) of
                Inl err \<Rightarrow> Inl err
              | Inr isIgnored \<Rightarrow>
                  Inr (Matcher str (re_state regex) (regex\<lparr>re_state := None\<rparr>) (isWindows env opts)
                         isIgnored opts (if returnState then re_state regex else None)))))"
| "picomatch env other opts returnState =
     Inl (TypeError ''Expected pattern to be a non-empty string'')"
  by pat_completeness auto
termination
  by (relation "measures [\<lambda>(env, g, opts, rs). if truthy (ignore opts) then 1 else 0,
                          \<lambda>(env, g, opts, rs). size g]")
     (auto simp: size_list_estimation' less_Suc_eq_le)

text \<open>
  The expression \<^verbatim>\<open>picomatch(glob, options, returnState)(input, returnObject)\<close>: build a
  matcher and apply it. \<open>isMatch\<close> is this expression without the two flags.
\<close>

definition invoke ::
  "env \<Rightarrow> jsval \<Rightarrow> options \<Rightarrow> bool \<Rightarrow> jsval \<Rightarrow> bool \<Rightarrow> (error + ret) \<times> event list" where
  "invoke env glob opts returnState input returnObject =
     (case picomatch env glob opts returnState of
        Inl err \<Rightarrow> (Inl err, [])
      | Inr matcher \<Rightarrow> call env matcher input returnObject)"

definition isMatch :: "env \<Rightarrow> jsval \<Rightarrow> jsval \<Rightarrow> options \<Rightarrow> (error + ret) \<times> event list" where
  "isMatch env str patterns opts = invoke env patterns opts False str False"

text \<open>The checks \<^verbatim>\<open>typeof v\<close> and \<^verbatim>\<open>Array.isArray(v)\<close>, for stating what the code tests.\<close>

primrec typeof :: "jsval \<Rightarrow> string" where
  "typeof JUndefined = ''undefined''"
| "typeof JNull = ''object''"
| "typeof (JBool b) = ''boolean''"
| "typeof (JNum n) = ''number''"
| "typeof (JStr s) = ''string''"
| "typeof (JArr xs) = ''object''"

primrec isArray :: "jsval \<Rightarrow> bool" where
  "isArray JUndefined = False"
| "isArray JNull = False"
| "isArray (JBool b) = False"
| "isArray (JNum n) = False"
| "isArray (JStr s) = False"
| "isArray (JArr xs) = True"

subsection \<open>\<open>split\<close>, \<open>join\<close> and \<open>resolve\<close>\<close>

record split_result =
  sp_base :: string
  sp_glob :: string
  sp_cwd :: string

definition picomatch_split :: "env \<Rightarrow> string \<Rightarrow> options \<Rightarrow> split_result" where
  "picomatch_split env pattern opts =
     (let st = scan env pattern opts;
          cwd' = (case cwd opts of
                    Some d \<Rightarrow> if d \<noteq> [] then d else process_cwd env
                  | None \<Rightarrow> process_cwd env);
          base = (if sc_base st \<noteq> [] \<and> hd (sc_base st) = CHR ''/'' then drop 1 (sc_base st)
                  else sc_base st)
      in \<lparr>sp_base = sc_base st, sp_glob = sc_glob st, sp_cwd = path_resolve env [cwd', sc_base st]\<rparr>)"




section \<open>Sample collaborators\<close>

text \<open>
  Closed instances of the theorems need collaborators to run with. \<open>sample_env\<close> is a
  POSIX host with a small Syntax Compiler: a leading \<^verbatim>\<open>!\<close> negates, \<^verbatim>\<open>*\<close> becomes \<^verbatim>\<open>[^\/]*?\<close>,
  the characters \<^verbatim>\<open>.\<close> and \<^verbatim>\<open>/\<close> are escaped and every other character stands for itself;
  its fast path knows \<^verbatim>\<open>*.ext\<close> and answers with the fragment documented at \<open>makeRe\<close> for
  \<^verbatim>\<open>*.js\<close>. Its engine knows no regular expression beyond those that the reader covers.
  It stands in for \<^verbatim>\<open>parse.js\<close>, \<^verbatim>\<open>scan.js\<close>, \<^verbatim>\<open>utils.js\<close> and the host only where a theorem
  is instantiated.
\<close>

definition bslash :: char where
  "bslash = CHR 0x5C"

definition sample_fragment :: "string \<Rightarrow> string" where
  "sample_fragment input =
     concat (map (\<lambda>c. if c = CHR ''*'' then ''[^'' @ [bslash] @ ''/]*?''
                       else if c = CHR ''.'' \<or> c = CHR ''/'' then [bslash, c]
                       else [c]) input)"

definition sample_parse :: "string \<Rightarrow> options \<Rightarrow> state" where
  "sample_parse input opts =
     (if prefix ''!'' input
      then \<lparr>s_output = Some (sample_fragment (drop 1 input)), negated = True, s_fastpaths = False\<rparr>
      else \<lparr>s_output = Some (sample_fragment input), negated = False, s_fastpaths = False\<rparr>)"

definition sample_fastpaths :: "string \<Rightarrow> options \<Rightarrow> string option" where
  "sample_fastpaths input opts =
     (if prefix ''*.'' input \<and> drop 2 input \<noteq> [] \<and> list_all is_alnum (drop 2 input)
      then Some (''('' @ [bslash] @ ''.['' @ [bslash, bslash, bslash] @ ''/])?(?!'' @ [bslash]
                 @ ''.)(?=.)[^'' @ [bslash] @ ''/]*?'' @ [bslash] @ ''.'' @ drop 2 input)
      else None)"

definition sample_scan :: "string \<Rightarrow> options \<Rightarrow> scanned" where
  "sample_scan pattern opts =
     (let segs = split_slash pattern;
          static = takeWhile (\<lambda>seg. \<not> has_glob_chars seg) (butlast segs)
      in \<lparr>sc_base = join_slash static, sc_glob = join_slash (drop (length static) segs)\<rparr>)"

definition sample_env :: env where
  "sample_env = \<lparr>parse = sample_parse, parse_fastpaths = sample_fastpaths, scan = sample_scan,
     isWindows = (\<lambda>opts. False), path_basename = posix_basename,
     path_resolve = resolve_from ''/work'',
     process_cwd = ''/work'', posix_cwd = ''/work'',
     host_accepts = (\<lambda>src fl. False), host_exec = (\<lambda>src fl i str. None)\<rparr>"


section \<open>Notions for stating the properties\<close>

text \<open>
  \<open>builds\<close>: the factory returns a matcher instead of throwing. \<open>says_true\<close>: a call
  returned \<^verbatim>\<open>true\<close>. \<open>accepted\<close>: a call returned a truthy value. \<open>reports_false\<close>: a call returned \<^verbatim>\<open>false\<close>, or a record whose
  \<^verbatim>\<open>isMatch\<close> is \<^verbatim>\<open>false\<close>. \<open>is_object\<close>: a call returned a record. \<open>upto_first P xs\<close> is
  \<open>xs\<close> up to and including its first element with \<open>P\<close>. \<open>guarded ig m\<close>: every single
  matcher under the arrays of \<open>m\<close> has \<open>ig\<close> as its \<^verbatim>\<open>isIgnored\<close>.
\<close>

fun upto_first :: "('a \<Rightarrow> bool) \<Rightarrow> 'a list \<Rightarrow> 'a list" where
  "upto_first P [] = []"
| "upto_first P (x # xs) = (if P x then [x] else x # upto_first P xs)"

definition builds :: "env \<Rightarrow> jsval \<Rightarrow> options \<Rightarrow> bool \<Rightarrow> bool" where
  "builds env glob opts returnState =
     (case picomatch env glob opts returnState of Inl err \<Rightarrow> False | Inr matcher \<Rightarrow> True)"

definition says_true :: "(error + ret) \<times> event list \<Rightarrow> bool" where
  "says_true x = (fst x = Inr (RBool True))"

definition accepted :: "error + ret \<Rightarrow> bool" where
  "accepted x = (case x of Inl err \<Rightarrow> False | Inr r \<Rightarrow> ret_truthy r)"

definition reports_false :: "error + ret \<Rightarrow> bool" where
  "reports_false x =
     (case x of
        Inl err \<Rightarrow> False
      | Inr (RBool b) \<Rightarrow> \<not> b
      | Inr (RObj res) \<Rightarrow> \<not> r_isMatch res)"

fun guarded :: "matcher \<Rightarrow> matcher \<Rightarrow> bool" where
  "guarded ig NeverIgnored = False"
| "guarded ig (ArrayMatcher fns) = list_all (guarded ig) fns"
| "guarded ig (Matcher glob st regex posix isIgnored opts attached) = (isIgnored = ig)"

text \<open>
  \<open>anchored r\<close> is what the reader makes of \<^verbatim>\<open>^(?:\<close>\<open>r\<close>\<^verbatim>\<open>)$\<close> and \<open>negation r\<close> of
  \<^verbatim>\<open>^(?!\<close>\<open>r\<close>\<^verbatim>\<open>).*$\<close>; \<open>re_test env src str\<close> is \<^verbatim>\<open>new RegExp(src).test(str)\<close>.
\<close>

definition anchored :: "rx \<Rightarrow> rx" where
  "anchored r = Seq Bol (Seq (Grp NonCapture r) (Seq Eol Skip))"

definition negation :: "rx \<Rightarrow> rx" where
  "negation r = Seq Bol (Seq (Grp NegLookAhead r) (Seq (Quant QStar False Dot) (Seq Eol Skip)))"


text \<open>
  \<open>assembled env str opts\<close> is the source text that \<open>makeRe\<close> hands to \<open>toRegex\<close> for the
  pattern \<open>str\<close>. \<open>no_fast_path env input opts\<close>: where \<open>makeRe\<close> consults the fast-path
  table for \<open>input\<close>, the table yields nothing.
\<close>

definition assembled :: "env \<Rightarrow> string \<Rightarrow> options \<Rightarrow> string" where
  "assembled env str opts =
     (case compile_output env (strip_dot_slash str) opts of (st, out) \<Rightarrow> assemble opts st out)"

definition no_fast_path :: "env \<Rightarrow> string \<Rightarrow> options \<Rightarrow> bool" where
  "no_fast_path env input opts =
     (options.fastpaths opts \<noteq> Some False
        \<and> (case input of [] \<Rightarrow> False | c # _ \<Rightarrow> c = CHR ''.'' \<or> c = CHR ''*'')
      \<longrightarrow> parse_fastpaths env input opts = None)"

definition is_object :: "error + ret \<Rightarrow> bool" where
  "is_object x = (case x of Inl err \<Rightarrow> False | Inr (RBool b) \<Rightarrow> False | Inr (RObj res) \<Rightarrow> True)"


section \<open>Properties\<close>

subsection \<open>Reading and matching regular expressions\<close>

text \<open>
  The reader works on the innermost open group only, so a text that reads as \<open>r\<close> on
  its own reads as \<open>r\<close> inside a group; a literal without glob characters reads as the
  sequence of its characters.
\<close>

lemma feed_append:
  "feed st (xs @ ys) =
     (case feed st xs of Read st' \<Rightarrow> feed st' ys | Malformed \<Rightarrow> Malformed | Beyond \<Rightarrow> Beyond)"
  by (induction xs arbitrary: st) (auto split: reading.splits)

lemma normal_ctx:
  "normal f cs c = Read (md', f', cs') \<Longrightarrow> normal f (cs @ ex) c = Read (md', f', cs' @ ex)"
  by (auto simp: normal_def in_frame_def split: if_splits list.splits reading.splits)

lemma consume_ctx:
  assumes a: "consume (md, f, cs) c = Read (md', f', cs')"
  shows "consume (md, f, cs @ ex) c = Read (md', f', cs' @ ex)"
proof (cases md)
  case MNormal
  then show ?thesis using a normal_ctx by simp
next
  case MOpen
  show ?thesis
  proof (cases "c = CHR ''?''")
    case True
    then show ?thesis using a MOpen by simp
  next
    case False
    with a MOpen have "normal ([], []) ((Capture, f) # cs) c = Read (md', f', cs')" by simp
    from normal_ctx [OF this, of ex] show ?thesis using False MOpen by simp
  qed
qed (use a in \<open>auto simp: in_mode_def split: if_splits reading.splits\<close>)

lemma feed_ctx:
  "feed (md, f, cs) src = Read (md', f', cs') \<Longrightarrow>
   feed (md, f, cs @ ex) src = Read (md', f', cs' @ ex)"
proof (induction src arbitrary: md f cs)
  case Nil
  then show ?case by simp
next
  case (Cons c src)
  from Cons.prems obtain md1 f1 cs1 where
    step: "consume (md, f, cs) c = Read (md1, f1, cs1)"
    and rest: "feed (md1, f1, cs1) src = Read (md', f', cs')"
    by (auto split: reading.splits)
  show ?case
    using consume_ctx [OF step, of ex] Cons.IH [OF rest] by simp
qed

lemma read_frame:
  assumes "rx_read src = Read r"
  shows "\<exists>f. feed (MNormal, ([], []), ex) src = Read (MNormal, f, ex) \<and> close f = r"
proof -
  from assms obtain st where st: "feed (MNormal, ([], []), []) src = Read st" and fin: "finish st = Read r"
    by (auto simp: rx_read_def split: reading.splits)
  from fin obtain f where f: "st = (MNormal, f, [])" and r: "close f = r"
    by (auto simp: finish_def split: prod.splits mode.splits list.splits)
  from feed_ctx [of MNormal "([], [])" "[]" src MNormal f "[]" ex] st f
  have "feed (MNormal, ([], []), ex) src = Read (MNormal, f, ex)" by simp
  with r show ?thesis by blast
qed

lemma read_group:
  assumes "rx_read out = Read r"
  shows "rx_read (''^(?:'' @ out @ '')$'') = Read (anchored r)"
proof -
  let ?ex = "[(NonCapture, ([], [(Bol, Closed)]))]"
  obtain f where f: "feed (MNormal, ([], []), ?ex) out = Read (MNormal, f, ?ex)" and r: "close f = r"
    using read_frame [OF assms] by blast
  have pre: "feed (MNormal, ([], []), []) ''^(?:'' = Read (MNormal, ([], []), ?ex)"
    by (simp add: normal_def push_def)
  have post: "feed (MNormal, f, ?ex) '')$''
      = Read (MNormal, ([], [(Eol, Closed), (Grp NonCapture r, Bare), (Bol, Closed)]), [])"
    by (simp add: normal_def push_def r)
  have "feed (MNormal, ([], []), []) (''^(?:'' @ out @ '')$'')
      = Read (MNormal, ([], [(Eol, Closed), (Grp NonCapture r, Bare), (Bol, Closed)]), [])"
    by (simp only: feed_append pre f post reading.case)
  then show ?thesis
    by (simp add: rx_read_def finish_def close_def seq_of_def anchored_def)
qed


lemma feed_literal:
  "\<not> has_glob_chars lit \<Longrightarrow>
   feed (MNormal, (alts, items), cs) (escape_literal lit)
     = Read (MNormal, (alts, rev (map (\<lambda>c. (Chr c, Bare)) lit) @ items), cs)"
proof (induction lit arbitrary: items)
  case Nil
  show ?case by (simp add: escape_literal_def)
next
  case (Cons c lit)
  from Cons.prems have c: "c \<notin> set glob_chars" and lit: "\<not> has_glob_chars lit"
    by (simp_all add: has_glob_chars_def)
  have step: "feed (MNormal, (alts, items), cs) (if c = CHR ''.'' \<or> c = CHR ''/'' then [CHR 0x5C, c] else [c])
      = Read (MNormal, (alts, (Chr c, Bare) # items), cs)"
    using c
    by (auto simp: normal_def push_def glob_chars_def escape_atom_def class_escape_def
        control_escape_def is_alnum_def)
  have "escape_literal (c # lit)
      = (if c = CHR ''.'' \<or> c = CHR ''/'' then [CHR 0x5C, c] else [c]) @ escape_literal lit"
    by (simp add: escape_literal_def)
  then show ?case
    using step Cons.IH [OF lit, of "(Chr c, Bare) # items"]
    by (simp only: feed_append reading.case) simp
qed

lemma read_literal:
  assumes "\<not> has_glob_chars lit"
  shows "rx_read (escape_literal lit) = Read (seq_of (map Chr lit))"
  using feed_literal [OF assms, of "[]" "[]" "[]"]
  by (simp add: rx_read_def finish_def close_def rev_map comp_def)


lemma matches_literal:
  "matches (seq_of (map Chr lit)) (b, a) k \<longleftrightarrow> (\<exists>rest. a = lit @ rest \<and> k (rev lit @ b, rest))"
proof (induction lit arbitrary: a b)
  case Nil
  show ?case by (simp add: seq_of_def)
next
  case (Cons c lit)
  have "matches (seq_of (map Chr (c # lit))) (b, a) k
      \<longleftrightarrow> one_char (\<lambda>x. x = c) (b, a) (\<lambda>st'. matches (seq_of (map Chr lit)) st' k)"
    by (simp add: seq_of_def)
  also have "\<dots> \<longleftrightarrow> (\<exists>xs. a = c # xs \<and> matches (seq_of (map Chr lit)) (c # b, xs) k)"
    by (cases a) (auto simp: one_char_def)
  also have "\<dots> \<longleftrightarrow> (\<exists>rest. a = (c # lit) @ rest \<and> k (rev (c # lit) @ b, rest))"
    by (auto simp: Cons.IH)
  finally show ?case .
qed

lemma exec_at_start:
  "rx_exec (Seq Bol r) s \<longleftrightarrow> matches r ([], s) (\<lambda>_. True)"
proof
  assume "rx_exec (Seq Bol r) s"
  then obtain i where "rev (take i s) = []" and m: "matches r (rev (take i s), drop i s) (\<lambda>_. True)"
    by (auto simp: rx_exec_def list_ex_iff)
  then have "take i s = []" by simp
  then have "drop i s = s" by (cases s; cases i) auto
  with m \<open>take i s = []\<close> show "matches r ([], s) (\<lambda>_. True)" by simp
next
  assume "matches r ([], s) (\<lambda>_. True)"
  then have "matches (Seq Bol r) (rev (take 0 s), drop 0 s) (\<lambda>_. True)" by simp
  then show "rx_exec (Seq Bol r) s"
    unfolding rx_exec_def list_ex_iff by (intro bexI [of _ 0]) auto
qed

lemma exec_anchored:
  "rx_exec (anchored r) s \<longleftrightarrow> matches r ([], s) (\<lambda>st. snd st = [])"
  by (simp add: anchored_def exec_at_start)

lemma anchored_at_start:
  "matches (anchored r) ([], s) (\<lambda>_. True) \<longleftrightarrow> rx_exec (anchored r) s"
  by (simp add: exec_anchored) (simp add: anchored_def)

lemma exec_anchored_literal:
  "rx_exec (anchored (seq_of (map Chr lit))) s \<longleftrightarrow> s = lit"
  by (auto simp: exec_anchored matches_literal)

lemma repeat_dot:
  "length a \<le> n \<Longrightarrow>
   repeat (matches Dot) n (b, a) (\<lambda>st. snd st = []) \<longleftrightarrow> (\<forall>c\<in>set a. \<not> is_line_terminator c)"
proof (induction n arbitrary: a b)
  case 0
  then show ?case by simp
next
  case (Suc n)
  show ?case
  proof (cases a)
    case Nil
    then show ?thesis by simp
  next
    case (Cons x xs)
    with Suc.prems have "length xs \<le> n" by simp
    from Suc.IH [OF this] show ?thesis using Cons
      by (simp add: one_char_def)
  qed
qed

lemma exec_negation:
  "rx_exec (negation r) s
     \<longleftrightarrow> \<not> matches r ([], s) (\<lambda>_. True) \<and> (\<forall>c\<in>set s. \<not> is_line_terminator c)"
  using repeat_dot [of s "length s" "[]"]
  by (simp add: negation_def exec_at_start)

lemma fallback_exec:
  "rx_exec (Seq Eol (Seq Bol Skip)) s \<longleftrightarrow> s = []"
proof
  assume "rx_exec (Seq Eol (Seq Bol Skip)) s"
  then obtain i where "drop i s = []" "rev (take i s) = []"
    by (auto simp: rx_exec_def list_ex_iff)
  then show "s = []" by (metis append_take_drop_id rev_is_Nil_conv self_append_conv)
next
  assume "s = []"
  then show "rx_exec (Seq Eol (Seq Bol Skip)) s"
    by (simp add: rx_exec_def)
qed

subsection \<open>Arguments\<close>

lemma picomatch_not_string:
  "\<not> isArray glob \<Longrightarrow> typeof glob \<noteq> ''string'' \<or> glob = JStr [] \<Longrightarrow>
   picomatch env glob opts returnState = Inl (TypeError ''Expected pattern to be a non-empty string'')"
  by (cases glob) simp_all

lemma makeRe_not_string:
  "typeof input \<noteq> ''string'' \<or> input = JStr [] \<Longrightarrow>
   makeRe env input opts returnOutput returnState = Inl (TypeError ''Expected a non-empty string'')"
  by (cases input) (simp_all add: makeRe_def)

lemma test_not_string:
  "typeof v \<noteq> ''string'' \<Longrightarrow>
   test env v regex opts g posix = Inl (TypeError ''Expected input to be a string'')"
  by (cases v) (simp_all add: test_def)

lemma test_empty:
  "test env (JStr []) regex opts g posix = Inr \<lparr>t_isMatch = False, t_match = MUndefined, t_output = []\<rparr>"
  by (simp add: test_def)

text \<open>
  C8. The factory rejects every pattern that is neither an array nor a non-empty string,
  and the regex assembler every pattern that is not a non-empty string, with the
  TypeError of the code and before any collaborator is consulted; the executor rejects
  every input that is not a string, and answers the empty string with
  \<^verbatim>\<open>{isMatch: false, output: ''}\<close>.
\<close>

theorem invalid_arguments_rejected:
  "(\<not> isArray glob \<and> (typeof glob \<noteq> ''string'' \<or> glob = JStr []) \<longrightarrow>
      picomatch env glob opts returnState
        = Inl (TypeError ''Expected pattern to be a non-empty string''))
   \<and> (typeof input \<noteq> ''string'' \<or> input = JStr [] \<longrightarrow>
      makeRe env input opts returnOutput returnState'
        = Inl (TypeError ''Expected a non-empty string''))
   \<and> (typeof v \<noteq> ''string'' \<longrightarrow>
      test env v regex opts g posix = Inl (TypeError ''Expected input to be a string''))
   \<and> test env (JStr []) regex opts g posix
        = Inr \<lparr>t_isMatch = False, t_match = MUndefined, t_output = []\<rparr>"
proof (intro conjI impI)
  assume "\<not> isArray glob \<and> (typeof glob \<noteq> ''string'' \<or> glob = JStr [])"
  then have "\<not> isArray glob" and "typeof glob \<noteq> ''string'' \<or> glob = JStr []"
    by simp_all
  then show "picomatch env glob opts returnState
      = Inl (TypeError ''Expected pattern to be a non-empty string'')"
    by (rule picomatch_not_string)
next
  assume "typeof input \<noteq> ''string'' \<or> input = JStr []"
  then show "makeRe env input opts returnOutput returnState'
      = Inl (TypeError ''Expected a non-empty string'')"
    by (rule makeRe_not_string)
next
  assume "typeof v \<noteq> ''string''"
  then show "test env v regex opts g posix = Inl (TypeError ''Expected input to be a string'')"
    by (rule test_not_string)
next
  show "test env (JStr []) regex opts g posix
      = Inr \<lparr>t_isMatch = False, t_match = MUndefined, t_output = []\<rparr>"
    by (rule test_empty)
qed

theorem invalid_arguments_rejected_witness:
  "picomatch sample_env (JNum 7) no_options False
     = Inl (TypeError ''Expected pattern to be a non-empty string'')
   \<and> makeRe sample_env (JArr [JStr ''a'']) no_options False False
     = Inl (TypeError ''Expected a non-empty string'')
   \<and> test sample_env JNull fallback no_options (Some ''a'') False
     = Inl (TypeError ''Expected input to be a string'')
   \<and> test sample_env (JStr []) fallback no_options (Some ''a'') False
     = Inr \<lparr>t_isMatch = False, t_match = MUndefined, t_output = []\<rparr>"
  using invalid_arguments_rejected [of "JNum 7" sample_env no_options False "JArr [JStr ''a'']"
      False False JNull fallback "Some ''a''" False]
  by simp

text \<open>
  C10. An empty array of patterns is accepted: the factory returns the matcher with no
  sub-matchers, which answers \<^verbatim>\<open>false\<close> to every input, of any type, and calls no
  callback. The check for a non-empty string is made for each element of an array.
\<close>

theorem empty_array_matches_nothing:
  "picomatch env (JArr []) opts returnState = Inr (ArrayMatcher [])
   \<and> call env (ArrayMatcher []) input returnObject = (Inr (RBool False), [])
   \<and> invoke env (JArr []) opts returnState input returnObject = (Inr (RBool False), [])
   \<and> picomatch env (JArr (JStr [] # globs)) opts returnState
       = Inl (TypeError ''Expected pattern to be a non-empty string'')"
  by (simp add: invoke_def)

theorem empty_array_matches_nothing_witness:
  "invoke sample_env (JArr []) no_options False (JStr ''a'') True = (Inr (RBool False), [])
   \<and> invoke sample_env (JArr []) no_options False JNull False = (Inr (RBool False), [])"
  using empty_array_matches_nothing [of sample_env no_options False "JStr ''a''" True]
    empty_array_matches_nothing [of sample_env no_options False JNull False]
  by simp


subsection \<open>Calling a matcher\<close>

lemma matchBase_regex: "\<exists>b. matchBase env str (Inl regex) opts (Some posix) = Inr b"
  by (simp add: matchBase_def Let_def)

lemma test_string_total: "\<exists>t. test env (JStr s) regex opts g posix = Inr t"
  using matchBase_regex [of env s regex opts posix]
  by (auto simp: test_def Let_def)

lemma call_string_total:
  "\<exists>r. fst (call env m (JStr s) returnObject) = Inr r"
  "\<exists>r. fst (call_first env fns (JStr s)) = Inr r"
proof (induction env m "JStr s" returnObject and env fns "JStr s" rule: call_call_first.induct)
  case (3 env glob st regex posix isIgnored opts attached returnObject)
  obtain t where t: "test env (JStr s) regex opts (Some glob) posix = Inr t"
    using test_string_total by blast
  show ?case
  proof (cases "t_isMatch t")
    case False
    then show ?thesis using t by (simp add: Let_def)
  next
    case True
    from 3 [OF t refl refl refl] True
    obtain r where "fst (call env isIgnored (JStr s) False) = Inr r"
      by auto
    then show ?thesis using t True
      by (cases "call env isIgnored (JStr s) False") (auto simp: Let_def)
  qed
next
  case (5 env isMatch fns)
  then obtain r where r: "fst (call env isMatch (JStr s) False) = Inr r" by blast
  show ?case
  proof (cases "ret_truthy r")
    case True
    then show ?thesis using r by (cases "call env isMatch (JStr s) False") auto
  next
    case False
    with 5 r obtain r' where "fst (call_first env fns (JStr s)) = Inr r'"
      by (cases "call env isMatch (JStr s) False") auto
    then show ?thesis using r False
      by (cases "call env isMatch (JStr s) False"; cases "call_first env fns (JStr s)") auto
  qed
qed simp_all

lemma call_plain_bool_aux:
  "\<not> returnObject \<Longrightarrow> fst (call env m input returnObject) = Inr r \<Longrightarrow> \<exists>b. r = RBool b"
  "fst (call_first env fns input) = Inr r \<Longrightarrow> \<exists>b. r = RBool b"
proof (induction env m input returnObject and env fns input arbitrary: r and r
    rule: call_call_first.induct)
  case (3 env glob st regex posix isIgnored opts attached input returnObject)
  then show ?case
    by (auto simp: Let_def split: sum.splits prod.splits if_splits)
next
  case (5 env isMatch fns str)
  then show ?case
    by (auto simp: Let_def split: sum.splits prod.splits if_splits)
qed auto

lemma call_plain_bool:
  "fst (call env m input False) = Inr r \<Longrightarrow> \<exists>b. r = RBool b"
  by (rule call_plain_bool_aux(1)) simp_all

lemma call_first_cases:
  "call_first env (f # fns) (JStr s) =
     (if fst (call env f (JStr s) False) = Inr (RBool True) then call env f (JStr s) False
      else (fst (call_first env fns (JStr s)),
            snd (call env f (JStr s) False) @ snd (call_first env fns (JStr s))))"
proof -
  obtain r where r: "fst (call env f (JStr s) False) = Inr r"
    using call_string_total(1) by blast
  then obtain b where b: "r = RBool b" using call_plain_bool by blast
  show ?thesis using r b
    by (cases "call env f (JStr s) False"; cases "call_first env fns (JStr s)") auto
qed


lemma call_first_or:
  "call_first env fns (JStr s) =
     (Inr (RBool (list_ex (\<lambda>f. says_true (call env f (JStr s) False)) fns)),
      concat (map (\<lambda>f. snd (call env f (JStr s) False))
                (upto_first (\<lambda>f. says_true (call env f (JStr s) False)) fns)))"
proof (induction fns)
  case Nil
  show ?case by simp
next
  case (Cons f fns)
  show ?case
    unfolding call_first_cases
    by (cases "call env f (JStr s) False") (simp add: Cons says_true_def)
qed

lemma sequence_all2:
  "sequence (map F xs) = Inr ys \<Longrightarrow> list_all2 (\<lambda>x y. F x = Inr y) xs ys"
  by (induction xs arbitrary: ys) (auto split: sum.splits)

lemma all2_sequence:
  "list_all2 (\<lambda>x y. F x = Inr y) xs ys \<Longrightarrow> sequence (map F xs) = Inr ys"
  by (induction xs ys rule: list_all2_induct) auto

lemma builds_sequence:
  "list_all (\<lambda>g. builds env g opts rs) globs \<Longrightarrow>
   \<exists>fns. sequence (map (\<lambda>g. picomatch env g opts rs) globs) = Inr fns"
  by (induction globs) (auto simp: builds_def split: sum.splits)

lemma all2_or:
  "list_all2 (\<lambda>g f. picomatch env g opts rs = Inr f) globs fns \<Longrightarrow>
   list_ex (\<lambda>f. says_true (call env f input False)) fns
     = list_ex (\<lambda>g. says_true (invoke env g opts rs input False)) globs
   \<and> map (\<lambda>f. snd (call env f input False))
         (upto_first (\<lambda>f. says_true (call env f input False)) fns)
     = map (\<lambda>g. snd (invoke env g opts rs input False))
         (upto_first (\<lambda>g. says_true (invoke env g opts rs input False)) globs)"
  by (induction globs fns rule: list_all2_induct) (auto simp: invoke_def)


lemma array_invoke:
  assumes "list_all (\<lambda>g. builds env g opts returnState) globs"
  shows "invoke env (JArr globs) opts returnState (JStr s) returnObject =
     (Inr (RBool (list_ex (\<lambda>g. says_true (invoke env g opts returnState (JStr s) False)) globs)),
      concat (map (\<lambda>g. snd (invoke env g opts returnState (JStr s) False))
                (upto_first (\<lambda>g. says_true (invoke env g opts returnState (JStr s) False)) globs)))"
proof -
  obtain fns where fns: "sequence (map (\<lambda>g. picomatch env g opts returnState) globs) = Inr fns"
    using builds_sequence [OF assms] by blast
  have rel: "list_all2 (\<lambda>g f. picomatch env g opts returnState = Inr f) globs fns"
    using sequence_all2 [OF fns] .
  have "invoke env (JArr globs) opts returnState (JStr s) returnObject = call_first env fns (JStr s)"
    by (simp add: invoke_def fns)
  then show ?thesis
    using all2_or [OF rel, where input = "JStr s"] by (simp add: call_first_or)
qed

lemma array_invoke_flag:
  "invoke env (JArr globs) opts returnState input returnObject
     = invoke env (JArr globs) opts returnState input False"
  by (auto simp: invoke_def split: sum.splits)

lemma array_invoke_plain:
  "\<not> is_object (fst (invoke env (JArr globs) opts returnState input returnObject))"
proof (cases "fst (invoke env (JArr globs) opts returnState input False)")
  case (Inl err)
  then show ?thesis by (simp add: array_invoke_flag [of _ _ _ _ _ returnObject] is_object_def)
next
  case (Inr r)
  then obtain m where "fst (call env m input False) = Inr r"
    by (auto simp: invoke_def split: sum.splits)
  then obtain b where "r = RBool b" using call_plain_bool by blast
  then show ?thesis using Inr
    by (simp add: array_invoke_flag [of _ _ _ _ _ returnObject] is_object_def)
qed

lemma accepted_is_string:
  "fst (call env m input returnObject) = Inr r \<Longrightarrow> ret_truthy r \<Longrightarrow> \<exists>s. input = JStr s"
  "fst (call_first env fns input) = Inr r \<Longrightarrow> ret_truthy r \<Longrightarrow> \<exists>s. input = JStr s"
proof (induction env m input returnObject and env fns input arbitrary: r and r
    rule: call_call_first.induct)
  case (3 env glob st regex posix isIgnored opts attached input returnObject)
  then show ?case
    by (cases input) (auto simp: test_def)
next
  case (5 env isMatch fns str)
  then show ?case
    by (auto split: sum.splits prod.splits if_splits)
qed auto

lemma guarded_vetoed:
  "guarded ig m \<Longrightarrow> fst (call env ig (JStr s) False) = Inr r \<Longrightarrow> ret_truthy r \<Longrightarrow>
   reports_false (fst (call env m (JStr s) returnObject))"
  "list_all (guarded ig) fns \<Longrightarrow> fst (call env ig (JStr s) False) = Inr r \<Longrightarrow> ret_truthy r \<Longrightarrow>
   fst (call_first env fns (JStr s)) = Inr (RBool False)"
proof (induction env m "JStr s" returnObject and env fns "JStr s"
    rule: call_call_first.induct)
  case (2 env fns returnObject)
  then show ?case by (simp add: reports_false_def)
next
  case (3 env glob st regex posix isIgnored opts attached returnObject)
  obtain t where t: "test env (JStr s) regex opts (Some glob) posix = Inr t"
    using test_string_total by blast
  from 3 have ig: "isIgnored = ig" by simp
  show ?case using t ig 3(3,4)
    by (cases "call env ig (JStr s) False") (auto simp: Let_def reports_false_def)
next
  case (5 env isMatch fns)
  from 5 have h: "reports_false (fst (call env isMatch (JStr s) False))" by simp
  obtain r' where r': "fst (call env isMatch (JStr s) False) = Inr r'"
    using call_string_total(1) by blast
  then obtain b where b: "r' = RBool b" using call_plain_bool by blast
  with h r' have f: "fst (call env isMatch (JStr s) False) = Inr (RBool False)"
    by (simp add: reports_false_def)
  have "fst (call_first env fns (JStr s)) = Inr (RBool False)"
    using 5 f by (cases "call env isMatch (JStr s) False") auto
  then show ?case using f
    by (cases "call env isMatch (JStr s) False"; cases "call_first env fns (JStr s)") auto
qed auto

lemma picomatch_guarded:
  "picomatch env glob opts rs = Inr m \<Longrightarrow> truthy (ignore opts) \<Longrightarrow>
   picomatch env (ignore opts) (opts\<lparr>ignore := JNull, onMatch := None\<rparr>) rs = Inr ig \<Longrightarrow>
   guarded ig m"
proof (induction glob arbitrary: m)
  case (JArr globs)
  from JArr(2) obtain fns where fns:
    "sequence (map (\<lambda>g. picomatch env g opts rs) globs) = Inr fns" and m: "m = ArrayMatcher fns"
    by (auto split: sum.splits)
  have "list_all2 (\<lambda>g f. picomatch env g opts rs = Inr f) globs fns"
    using sequence_all2 [OF fns] .
  then have "list_all (guarded ig) fns"
    using JArr(1,3,4)
    by (induction globs fns rule: list_all2_induct) auto
  then show ?case using m by simp
next
  case (JStr str)
  then show ?case
    by (auto split: if_splits sum.splits made.splits)
qed simp_all


lemma ignored_reports_false:
  assumes "picomatch env glob opts returnState = Inr m"
    and "truthy (ignore opts)"
    and "fst (invoke env (ignore opts) (opts\<lparr>ignore := JNull, onMatch := None\<rparr>) returnState
           input False) = Inr r"
    and "ret_truthy r"
  shows "reports_false (fst (call env m input returnObject))"
proof -
  from assms(3) obtain ig where
    ig: "picomatch env (ignore opts) (opts\<lparr>ignore := JNull, onMatch := None\<rparr>) returnState = Inr ig"
    and r: "fst (call env ig input False) = Inr r"
    by (auto simp: invoke_def split: sum.splits)
  obtain s where s: "input = JStr s"
    using accepted_is_string(1) [OF r assms(4)] by blast
  have "guarded ig m" using picomatch_guarded [OF assms(1,2) ig] .
  then show ?thesis using guarded_vetoed(1) r assms(4) s by blast
qed


text \<open>
  When the factory returns a matcher: for an array, when it does for every element; for
  a string, when the string is not empty, the host accepts the assembled expression or
  \<^verbatim>\<open>debug\<close> is off, and the ignore patterns, if any, build; for nothing else.
\<close>

lemma builds_array:
  "builds env (JArr globs) opts rs \<longleftrightarrow> list_all (\<lambda>g. builds env g opts rs) globs"
proof
  assume "builds env (JArr globs) opts rs"
  then obtain fns where "sequence (map (\<lambda>g. picomatch env g opts rs) globs) = Inr fns"
    by (auto simp: builds_def split: sum.splits)
  from sequence_all2 [OF this]
  show "list_all (\<lambda>g. builds env g opts rs) globs"
    by (induction globs fns rule: list_all2_induct) (auto simp: builds_def)
next
  assume "list_all (\<lambda>g. builds env g opts rs) globs"
  from builds_sequence [OF this] show "builds env (JArr globs) opts rs"
    by (auto simp: builds_def)
qed

lemma toRegex_throws:
  "(\<exists>err. toRegex env src opts = Inl err) \<longleftrightarrow> debug opts \<and> RegExp env src (regex_flags opts) = None"
  by (auto simp: toRegex_def split: option.splits)

lemma builds_string:
  "builds env (JStr str) opts rs \<longleftrightarrow>
     str \<noteq> []
     \<and> (debug opts \<longrightarrow> RegExp env (assembled env str opts) (regex_flags opts) \<noteq> None)
     \<and> (truthy (ignore opts) \<longrightarrow>
          builds env (ignore opts) (opts\<lparr>ignore := JNull, onMatch := None\<rparr>) rs)"
proof (cases "str = []")
  case True
  then show ?thesis by (simp add: builds_def)
next
  case False
  obtain st out where c: "compile_output env (strip_dot_slash str) opts = (st, out)"
    by (cases "compile_output env (strip_dot_slash str) opts")
  show ?thesis
  proof (cases "toRegex env (assemble opts st out) opts")
    case (Inl err)
    then have "debug opts \<and> RegExp env (assemble opts st out) (regex_flags opts) = None"
      using toRegex_throws by blast
    then show ?thesis using False Inl c
      by (simp add: builds_def makeRe_def assembled_def)
  next
    case (Inr regex)
    then have "\<not> (debug opts \<and> RegExp env (assemble opts st out) (regex_flags opts) = None)"
      using toRegex_throws [of env "assemble opts st out" opts] by auto
    then show ?thesis using False Inr c
      by (auto simp: builds_def makeRe_def assembled_def split: sum.splits)
  qed
qed

lemma builds_plain:
  "str \<noteq> [] \<Longrightarrow> \<not> debug opts \<Longrightarrow> \<not> truthy (ignore opts) \<Longrightarrow> builds env (JStr str) opts rs"
  by (simp add: builds_string)

lemma builds_other:
  "\<not> isArray glob \<Longrightarrow> typeof glob \<noteq> ''string'' \<Longrightarrow> \<not> builds env glob opts rs"
  by (cases glob) (simp_all add: builds_def)

subsection \<open>Arrays of patterns\<close>

text \<open>
  C5. For an array of patterns for which the factory returns a matcher (every element
  builds), whatever the options and the host, the matcher applied to a string
  returns the logical OR of what the matchers of the elements return, and the callbacks
  it calls are those of the elements from the left up to and including the first that
  matches: the elements after it are not evaluated. In particular it returns
  \<^verbatim>\<open>false\<close> when no element matches. The same holds of the closure over any matchers
  \<open>fns\<close>, in whatever state they are. With the sample collaborators,
  \<^verbatim>\<open>isMatch('a.a', ['b.*', '*.a'])\<close> is \<^verbatim>\<open>true\<close> and \<^verbatim>\<open>isMatch('a.a', 'b.*')\<close> is \<^verbatim>\<open>false\<close>.
\<close>

theorem array_matcher_is_or:
  assumes "list_all (\<lambda>g. builds env g opts returnState) globs"
  shows "invoke env (JArr globs) opts returnState (JStr s) returnObject =
     (Inr (RBool (list_ex (\<lambda>g. says_true (invoke env g opts returnState (JStr s) False)) globs)),
      concat (map (\<lambda>g. snd (invoke env g opts returnState (JStr s) False))
                (upto_first (\<lambda>g. says_true (invoke env g opts returnState (JStr s) False)) globs)))
    \<and> call env (ArrayMatcher fns) (JStr s) returnObject =
     (Inr (RBool (list_ex (\<lambda>f. says_true (call env f (JStr s) False)) fns)),
      concat (map (\<lambda>f. snd (call env f (JStr s) False))
                (upto_first (\<lambda>f. says_true (call env f (JStr s) False)) fns)))"
proof
  show "invoke env (JArr globs) opts returnState (JStr s) returnObject =
     (Inr (RBool (list_ex (\<lambda>g. says_true (invoke env g opts returnState (JStr s) False)) globs)),
      concat (map (\<lambda>g. snd (invoke env g opts returnState (JStr s) False))
                (upto_first (\<lambda>g. says_true (invoke env g opts returnState (JStr s) False)) globs)))"
    using assms by (rule array_invoke)
  show "call env (ArrayMatcher fns) (JStr s) returnObject =
     (Inr (RBool (list_ex (\<lambda>f. says_true (call env f (JStr s) False)) fns)),
      concat (map (\<lambda>f. snd (call env f (JStr s) False))
                (upto_first (\<lambda>f. says_true (call env f (JStr s) False)) fns)))"
    by (simp add: call_first_or)
qed

theorem array_matcher_is_or_witness:
  "isMatch sample_env (JStr ''a.a'') (JArr [JStr ''b.*'', JStr ''*.a'']) no_options
     = (Inr (RBool True), [])
   \<and> isMatch sample_env (JStr ''a.a'') (JStr ''b.*'') no_options = (Inr (RBool False), [])
   \<and> isMatch sample_env (JStr ''a'') (JArr [JStr ''b'', JStr ''a'']) (no_options\<lparr>nocase := True\<rparr>)
       = (Inr (RBool True), [])"
proof -
  let ?nocase = "no_options\<lparr>nocase := True\<rparr>"
  have nb: "list_all (\<lambda>g. builds sample_env g ?nocase False) [JStr ''b'', JStr ''a'']"
    by code_simp
  have n1: "invoke sample_env (JStr ''b'') ?nocase False (JStr ''a'') False = (Inr (RBool False), [])"
    by code_simp
  have n2: "invoke sample_env (JStr ''a'') ?nocase False (JStr ''a'') False = (Inr (RBool True), [])"
    by code_simp
  have b: "list_all (\<lambda>g. builds sample_env g no_options False) [JStr ''b.*'', JStr ''*.a'']"
    by code_simp
  have e1: "invoke sample_env (JStr ''b.*'') no_options False (JStr ''a.a'') False
      = (Inr (RBool False), [])"
    by code_simp
  have e2: "invoke sample_env (JStr ''*.a'') no_options False (JStr ''a.a'') False
      = (Inr (RBool True), [])"
    by code_simp
  show ?thesis
    using array_matcher_is_or [OF b, where s = "''a.a''" and returnObject = False and fns = "[]"]
      array_matcher_is_or [OF nb, where s = "''a''" and returnObject = False and fns = "[]"]
      e1 e2 n1 n2
    by (simp add: says_true_def isMatch_def)
qed

text \<open>
  C6, as stated, fails: for the array \<^verbatim>\<open>['a']\<close> and the input \<^verbatim>\<open>'a'\<close> the matcher called
  with \<^verbatim>\<open>returnObject = true\<close> returns \<^verbatim>\<open>true\<close>, where the matcher of \<^verbatim>\<open>'a'\<close> alone returns a
  record.
\<close>

theorem array_matcher_full_result_counterexample:
  "fst (invoke sample_env (JArr [JStr ''a'']) no_options False (JStr ''a'') True) = Inr (RBool True)
   \<and> is_object (fst (invoke sample_env (JStr ''a'') no_options False (JStr ''a'') True))"
  by code_simp

text \<open>
  C6, amended. The closure returned for an array takes the input alone: the flag
  \<^verbatim>\<open>returnObject\<close> changes nothing, the sub-matchers are called without it, and the
  result is never a record, for the matcher that the factory returns and for the closure
  over any matchers \<open>fns\<close>; when the factory returns a matcher and some element matches
  a string, the result is the \<^verbatim>\<open>true\<close> that this sub-matcher returned.
\<close>

theorem array_matcher_drops_flag:
  "invoke env (JArr globs) opts returnState input returnObject
     = invoke env (JArr globs) opts returnState input False
   \<and> \<not> is_object (fst (invoke env (JArr globs) opts returnState input returnObject))
   \<and> (list_all (\<lambda>g. builds env g opts returnState) globs
        \<and> list_ex (\<lambda>g. says_true (invoke env g opts returnState (JStr s) False)) globs \<longrightarrow>
      fst (invoke env (JArr globs) opts returnState (JStr s) returnObject) = Inr (RBool True))
   \<and> call env (ArrayMatcher fns) input returnObject = call env (ArrayMatcher fns) input False
   \<and> \<not> is_object (fst (call env (ArrayMatcher fns) input returnObject))"
proof -
  have "\<not> is_object (fst (call_first env fns input))"
    using call_plain_bool_aux(2) [of env fns input]
    by (cases "fst (call_first env fns input)") (auto simp: is_object_def)
  then show ?thesis
    using array_invoke_flag [of env globs opts returnState input returnObject]
      array_invoke_plain [of env globs opts returnState input returnObject]
      array_invoke [of env opts returnState globs s returnObject]
    by simp
qed

theorem array_matcher_drops_flag_witness:
  "invoke sample_env (JArr [JStr ''a'']) no_options False (JStr ''a'') True
     = invoke sample_env (JArr [JStr ''a'']) no_options False (JStr ''a'') False
   \<and> \<not> is_object (fst (invoke sample_env (JArr [JStr ''a'']) no_options False (JStr ''a'') True))
   \<and> fst (invoke sample_env (JArr [JStr ''a'']) no_options False (JStr ''a'') True)
       = Inr (RBool True)"
proof -
  have b: "list_all (\<lambda>g. builds sample_env g no_options False) [JStr ''a'']"
    by code_simp
  have y: "list_ex (\<lambda>g. says_true (invoke sample_env g no_options False (JStr ''a'') False)) [JStr ''a'']"
    by code_simp
  show ?thesis
    using array_matcher_drops_flag [of sample_env "[JStr ''a'']" no_options False "JStr ''a''" True "''a''"]
      b y
    by blast
qed

subsection \<open>The ignore filter\<close>

text \<open>
  C4. Let the factory return a matcher for a pattern or an array of patterns, with a
  truthy \<^verbatim>\<open>options.ignore\<close>, whatever the other options and the host. Whenever the matcher built
  from the ignore pattern(s), with \<^verbatim>\<open>ignore\<close> and \<^verbatim>\<open>onMatch\<close> cleared, accepts an input, the
  matcher returns \<^verbatim>\<open>false\<close> for it, or with \<^verbatim>\<open>returnObject\<close> a record whose \<^verbatim>\<open>isMatch\<close> is
  \<^verbatim>\<open>false\<close>: also when its own expression matches, as for \<^verbatim>\<open>'a.*'\<close>, \<^verbatim>\<open>'a.b'\<close> and the
  ignore pattern \<^verbatim>\<open>'*.b'\<close>. The same holds of a single matcher in any state, whenever its
  \<^verbatim>\<open>isIgnored\<close> accepts the input.
\<close>

theorem ignore_vetoes:
  assumes "builds env glob opts returnState"
    and "truthy (ignore opts)"
    and "accepted (fst (invoke env (ignore opts) (opts\<lparr>ignore := JNull, onMatch := None\<rparr>)
           returnState input False))"
  shows "reports_false (fst (invoke env glob opts returnState input returnObject))
    \<and> (accepted (fst (call env isIgnored str False)) \<longrightarrow>
        reports_false (fst (call env (Matcher pattern st regex posix isIgnored opts' attached)
          str returnObject')))"
proof
  show "accepted (fst (call env isIgnored str False)) \<longrightarrow>
        reports_false (fst (call env (Matcher pattern st regex posix isIgnored opts' attached)
          str returnObject'))"
  proof
    assume "accepted (fst (call env isIgnored str False))"
    then obtain r where r: "fst (call env isIgnored str False) = Inr r" and t: "ret_truthy r"
      by (auto simp: accepted_def split: sum.splits)
    obtain x where x: "str = JStr x"
      using accepted_is_string(1) [OF r t] by blast
    have "guarded isIgnored (Matcher pattern st regex posix isIgnored opts' attached)" by simp
    from guarded_vetoed(1) [OF this r [unfolded x] t]
    show "reports_false (fst (call env (Matcher pattern st regex posix isIgnored opts' attached)
          str returnObject'))"
      unfolding x .
  qed
  from assms(1) obtain m where m: "picomatch env glob opts returnState = Inr m"
    by (auto simp: builds_def split: sum.splits)
  from assms(3) obtain r where
    r: "fst (invoke env (ignore opts) (opts\<lparr>ignore := JNull, onMatch := None\<rparr>)
           returnState input False) = Inr r" and t: "ret_truthy r"
    by (auto simp: accepted_def split: sum.splits)
  show "reports_false (fst (invoke env glob opts returnState input returnObject))"
    using ignored_reports_false [OF m assms(2) r t] by (simp add: invoke_def m)
qed

theorem ignore_vetoes_witness:
  "says_true (invoke sample_env (JStr ''a.*'') no_options False (JStr ''a.b'') False)
   \<and> reports_false (fst (invoke sample_env (JStr ''a.*'') (no_options\<lparr>ignore := JStr ''*.b''\<rparr>)
        False (JStr ''a.b'') False))
   \<and> reports_false (fst (invoke sample_env (JStr ''a.*'') (no_options\<lparr>ignore := JStr ''*.b''\<rparr>)
        False (JStr ''a.b'') True))
   \<and> says_true (invoke sample_env (JStr ''a.b'') (no_options\<lparr>nocase := True\<rparr>) False
        (JStr ''a.b'') False)
   \<and> reports_false (fst (invoke sample_env (JStr ''a.b'')
        (no_options\<lparr>ignore := JStr ''a.b'', nocase := True\<rparr>) False (JStr ''a.b'') False))"
proof -
  let ?nocase = "no_options\<lparr>ignore := JStr ''a.b'', nocase := True\<rparr>"
  have nb: "builds sample_env (JStr ''a.b'') ?nocase False"
    by code_simp
  have nt: "truthy (ignore ?nocase)"
    by code_simp
  have na: "accepted (fst (invoke sample_env (ignore ?nocase)
      (?nocase\<lparr>ignore := JNull, onMatch := None\<rparr>) False (JStr ''a.b'') False))"
    by code_simp
  have ny: "says_true (invoke sample_env (JStr ''a.b'') (no_options\<lparr>nocase := True\<rparr>) False
      (JStr ''a.b'') False)"
    by code_simp
  let ?opts = "no_options\<lparr>ignore := JStr ''*.b''\<rparr>"
  have b: "builds sample_env (JStr ''a.*'') ?opts False"
    by code_simp
  have t: "truthy (ignore ?opts)"
    by code_simp
  have a: "accepted (fst (invoke sample_env (ignore ?opts) (?opts\<lparr>ignore := JNull, onMatch := None\<rparr>)
      False (JStr ''a.b'') False))"
    by code_simp
  have y: "says_true (invoke sample_env (JStr ''a.*'') no_options False (JStr ''a.b'') False)"
    by code_simp
  show ?thesis
    using ignore_vetoes [OF b t a, of False] ignore_vetoes [OF b t a, of True] y
      ignore_vetoes [OF nb nt na, of False] ny
    by simp
qed

subsection \<open>\<open>split\<close>\<close>

text \<open>
  C3. \<open>split\<close> computes the base without its leading slash and then returns the
  Scanner's base as it is: for a Scanner that answers \<^verbatim>\<open>/foo\<close> and \<^verbatim>\<open>*.js\<close>, the base
  returned is \<^verbatim>\<open>/foo\<close> and not \<^verbatim>\<open>foo\<close>.
\<close>

theorem split_returns_base_unstripped:
  "sp_base (picomatch_split env pattern opts) = sc_base (scan env pattern opts)
   \<and> picomatch_split sample_env ''/foo/*.js'' no_options
       = \<lparr>sp_base = ''/foo'', sp_glob = ''*.js'', sp_cwd = ''/foo''\<rparr>"
proof
  show "sp_base (picomatch_split env pattern opts) = sc_base (scan env pattern opts)"
    by (simp add: picomatch_split_def Let_def)
  show "picomatch_split sample_env ''/foo/*.js'' no_options
       = \<lparr>sp_base = ''/foo'', sp_glob = ''*.js'', sp_cwd = ''/foo''\<rparr>"
    by code_simp
qed

theorem split_returns_base_unstripped_witness:
  "sc_base (scan sample_env ''/foo/*.js'' no_options) = ''/foo''
   \<and> sp_base (picomatch_split sample_env ''/foo/*.js'' no_options) = ''/foo''"
proof -
  note t = split_returns_base_unstripped [of sample_env "''/foo/*.js''" no_options]
  from t have a: "sp_base (picomatch_split sample_env ''/foo/*.js'' no_options)
      = sc_base (scan sample_env ''/foo/*.js'' no_options)"
    by (rule conjunct1)
  from t have "picomatch_split sample_env ''/foo/*.js'' no_options
      = \<lparr>sp_base = ''/foo'', sp_glob = ''*.js'', sp_cwd = ''/foo''\<rparr>"
    by (rule conjunct2)
  then have c: "sp_base (picomatch_split sample_env ''/foo/*.js'' no_options) = ''/foo''"
    by simp
  from a c show ?thesis by simp
qed


subsection \<open>Literal patterns\<close>

lemma toRegex_malformed:
  "RegExp env src (regex_flags opts) = None \<Longrightarrow>
   toRegex env src opts = (if debug opts then Inl SyntaxError else Inr fallback)"
  by (simp add: toRegex_def)

lemma RegExp_read:
  "rx_read src = Read r \<Longrightarrow>
   RegExp env src [] = Some \<lparr>source = src, re_flags = [], re_prog = Some r, lastIndex = 0,
     re_state = None\<rparr>"
  by (simp add: RegExp_def valid_flags_def)

lemma compile_literal:
  assumes "\<not> has_glob_chars p" and "no_fast_path env p opts"
  shows "compile_output env p opts
     = (\<lparr>s_output = None, negated = False, s_fastpaths = True\<rparr>, Some (escape_literal p))"
  using assms by (auto simp: compile_output_def no_fast_path_def Let_def split: list.splits)

lemma strip_no_glob: "\<not> has_glob_chars p \<Longrightarrow> \<not> has_glob_chars (strip_dot_slash p)"
  by (auto simp: has_glob_chars_def strip_dot_slash_def list_ex_iff dest: in_set_dropD)

lemma makeRe_literal:
  assumes "p \<noteq> []" and "\<not> has_glob_chars p"
    and "no_fast_path env (strip_dot_slash p) opts"
    and "regex_flags opts = []" and "\<not> contains opts"
  shows "makeRe env (JStr p) opts False returnState
     = Inr (Regex \<lparr>source = ''^(?:'' @ escape_literal (strip_dot_slash p) @ '')$'', re_flags = [],
              re_prog = Some (anchored (seq_of (map Chr (strip_dot_slash p)))), lastIndex = 0,
              re_state = (if returnState
                          then Some \<lparr>s_output = None, negated = False, s_fastpaths = True\<rparr>
                          else None)\<rparr>)"
proof -
  have g: "\<not> has_glob_chars (strip_dot_slash p)" using assms(2) by (rule strip_no_glob)
  have r: "RegExp env (''^(?:'' @ escape_literal (strip_dot_slash p) @ '')$'') []
      = Some \<lparr>source = ''^(?:'' @ escape_literal (strip_dot_slash p) @ '')$'', re_flags = [],
              re_prog = Some (anchored (seq_of (map Chr (strip_dot_slash p)))), lastIndex = 0, re_state = None\<rparr>"
    using RegExp_read [OF read_group [OF read_literal [OF g]]] .
  show ?thesis
    using assms(1,4,5) r
    by (simp add: makeRe_def compile_literal [OF g assms(3)] assemble_def interpolate_def
        toRegex_def)
qed

lemma toPosixSlashes_plain: "\<not> has_glob_chars s \<Longrightarrow> toPosixSlashes s = s"
  by (induction s) (auto simp: toPosixSlashes_def has_glob_chars_def glob_chars_def)

lemma strip_longer: "strip_dot_slash (s @ ''x'') \<noteq> s"
proof (cases "prefix ''./'' (s @ ''x'')")
  case True
  then have "length ''./'' \<le> length (s @ ''x'')" by (rule prefix_length_le)
  then have "length (drop 2 (s @ ''x'')) \<noteq> length s" by simp
  then have "drop 2 (s @ ''x'') \<noteq> s" by metis
  then show ?thesis using True by (simp add: strip_dot_slash_def del: drop_append)
next
  case False
  then show ?thesis by (simp add: strip_dot_slash_def)
qed

lemma picomatch_plain:
  assumes "str \<noteq> []" and "\<not> debug opts" and "\<not> truthy (ignore opts)"
  shows "\<exists>st regex attached. picomatch env (JStr str) opts returnState
     = Inr (Matcher str st regex (isWindows env opts) NeverIgnored opts attached)"
  using assms
  by (cases "compile_output env (strip_dot_slash str) opts")
     (auto simp: makeRe_def toRegex_def split: option.splits)

text \<open>
  C7. Let \<open>s\<close> be a non-empty string without glob characters. Then \<^verbatim>\<open>isMatch(s, s)\<close> is
  \<^verbatim>\<open>true\<close>: the executor compares the input with the pattern first and runs no regular
  expression when they are equal, whatever the regular expression is. Unless the
  fast-path table has an entry for it, the assembler compiles the pattern by escaping
  \<^verbatim>\<open>.\<close> and \<^verbatim>\<open>/\<close> only (after dropping a leading \<^verbatim>\<open>./\<close>), and \<^verbatim>\<open>isMatch(s, s + 'x')\<close> is \<^verbatim>\<open>false\<close>.
\<close>

theorem literal_patterns:
  assumes "s \<noteq> []" and "\<not> has_glob_chars s"
  shows "isMatch env (JStr s) (JStr s) no_options = (Inr (RBool True), [])
    \<and> test env (JStr s) regex no_options (Some s) posix
        = Inr \<lparr>t_isMatch = True, t_match = MBool True,
               t_output = (if posix then toPosixSlashes s else s)\<rparr>
    \<and> (no_fast_path env (strip_dot_slash s) no_options \<longrightarrow>
        makeRe env (JStr s) no_options True False
          = Inr (Output (Some (escape_literal (strip_dot_slash s)))))
    \<and> (no_fast_path env (strip_dot_slash (s @ ''x'')) no_options \<longrightarrow>
        isMatch env (JStr s) (JStr (s @ ''x'')) no_options = (Inr (RBool False), []))"
proof (intro conjI impI)
  have fl: "regex_flags no_options = []" "\<not> contains no_options"
    by (simp_all add: regex_flags_def no_options_def)
  have opt: "format no_options = None" "\<not> capture no_options" "\<not> options.matchBase no_options"
    "\<not> basename no_options" "\<not> truthy (ignore no_options)" "onResult no_options = None"
    "onMatch no_options = None" "onIgnore no_options = None" "\<not> debug no_options"
    by (simp_all add: no_options_def)
  show t: "test env (JStr s) regex no_options (Some s) posix
        = Inr \<lparr>t_isMatch = True, t_match = MBool True,
               t_output = (if posix then toPosixSlashes s else s)\<rparr>" for regex posix
    using assms(1) by (simp add: test_def opt Let_def)
  obtain st regex attached where
    "picomatch env (JStr s) no_options False
       = Inr (Matcher s st regex (isWindows env no_options) NeverIgnored no_options attached)"
    using picomatch_plain [OF assms(1) opt(9) opt(5)] by blast
  then show "isMatch env (JStr s) (JStr s) no_options = (Inr (RBool True), [])"
    by (simp add: isMatch_def invoke_def opt t Let_def called_def)
  have g: "\<not> has_glob_chars (s @ ''x'')"
    using assms(2) by (simp add: has_glob_chars_def glob_chars_def)
  have ne: "s @ ''x'' \<noteq> []" by simp
  have ex: "exec env \<lparr>source = src, re_flags = [],
              re_prog = Some (anchored (seq_of (map Chr (strip_dot_slash (s @ ''x''))))),
              lastIndex = 0, re_state = None\<rparr> s = MNull" for src
    using strip_longer [of s] by (auto simp: exec_def exec_anchored_literal)
  have t2: "test env (JStr s) \<lparr>source = src, re_flags = [],
              re_prog = Some (anchored (seq_of (map Chr (strip_dot_slash (s @ ''x''))))),
              lastIndex = 0, re_state = None\<rparr> no_options (Some (s @ ''x'')) posix
        = Inr \<lparr>t_isMatch = False, t_match = MNull, t_output = s\<rparr>" for src posix
    using assms(1) by (simp add: test_def opt Let_def ex toPosixSlashes_plain [OF assms(2)])
  {
    assume f: "no_fast_path env (strip_dot_slash (s @ ''x'')) no_options"
    show "isMatch env (JStr s) (JStr (s @ ''x'')) no_options = (Inr (RBool False), [])"
      by (simp add: isMatch_def invoke_def makeRe_literal [OF ne g f fl] opt t2 Let_def
          called_def)
  }
  {
    assume f: "no_fast_path env (strip_dot_slash s) no_options"
    show "makeRe env (JStr s) no_options True False
          = Inr (Output (Some (escape_literal (strip_dot_slash s))))"
      using assms(1)
      by (simp add: makeRe_def compile_literal [OF strip_no_glob [OF assms(2)] f])
  }
qed

theorem literal_patterns_witness:
  "isMatch sample_env (JStr ''lib/a.js'') (JStr ''lib/a.js'') no_options = (Inr (RBool True), [])
   \<and> isMatch sample_env (JStr ''lib/a.js'') (JStr ''lib/a.jsx'') no_options
       = (Inr (RBool False), [])
   \<and> makeRe sample_env (JStr ''lib/a.js'') no_options True False
       = Inr (Output (Some (''lib'' @ [CHR 0x5C] @ ''/a'' @ [CHR 0x5C] @ ''.js'')))"
proof -
  have n: "''lib/a.js'' \<noteq> []" by simp
  have g: "\<not> has_glob_chars ''lib/a.js''" by code_simp
  have f1: "no_fast_path sample_env (strip_dot_slash ''lib/a.js'') no_options"
    by code_simp
  have f2: "no_fast_path sample_env (strip_dot_slash (''lib/a.js'' @ ''x'')) no_options"
    by code_simp
  have e: "escape_literal (strip_dot_slash ''lib/a.js'') = ''lib'' @ [CHR 0x5C] @ ''/a'' @ [CHR 0x5C] @ ''.js''"
    by code_simp
  show ?thesis
    using literal_patterns [OF n g, of sample_env] f1 f2 e by simp
qed

subsection \<open>Negated patterns\<close>


lemma exec_negation_anchored:
  "rx_exec (negation (anchored ro)) s
     \<longleftrightarrow> \<not> rx_exec (anchored ro) s \<and> list_all (\<lambda>c. \<not> is_line_terminator c) s"
  by (simp add: exec_negation anchored_at_start list_all_iff)

lemma negation_of_any:
  "\<not> rx_exec (negation (anchored (Seq (Quant QStar False Dot) Skip))) s"
proof -
  have "rx_exec (anchored (Seq (Quant QStar False Dot) Skip)) s
      \<longleftrightarrow> (\<forall>c\<in>set s. \<not> is_line_terminator c)"
    using repeat_dot [of s "length s" "[]"] by (simp add: exec_anchored)
  then show ?thesis unfolding exec_negation_anchored list_all_iff by blast
qed




subsection \<open>The fallback of \<open>toRegex\<close>\<close>

lemma posix_basename_root: "posix_basename ''/'' = []"
  by (simp add: posix_basename_def)

text \<open>
  C2. When the host rejects the assembled expression and \<^verbatim>\<open>debug\<close> is off, \<open>toRegex\<close>
  returns \<^verbatim>\<open>/$^/\<close>, which matches the empty string. In base-name mode the matcher runs it
  on the base name of the input, and the base name of \<^verbatim>\<open>/\<close> is empty: the matcher of a
  broken pattern returns \<^verbatim>\<open>true\<close> for the input \<^verbatim>\<open>/\<close>.
\<close>

theorem fallback_accepts_empty_base_name:
  assumes "str \<noteq> []" and "str \<noteq> ''/''"
    and "compile_output env (strip_dot_slash str) opts = (st, out)"
    and "RegExp env (assemble opts st out) (regex_flags opts) = None"
    and "\<not> debug opts" and "options.matchBase opts" and "format opts = None"
    and "\<not> truthy (ignore opts)" and "path_basename env ''/'' = []"
  shows "toRegex env (assemble opts st out) opts = Inr fallback
    \<and> fst (invoke env (JStr str) opts returnState (JStr ''/'') False) = Inr (RBool True)"
proof
  show t: "toRegex env (assemble opts st out) opts = Inr fallback"
    using toRegex_malformed [OF assms(4)] assms(5) by simp
  have e: "exec env (fallback\<lparr>re_state := None\<rparr>) [] = MArray"
    using fallback_exec [of "[]"] by (simp add: exec_def fallback_def)
  have b: "matchBase env ''/'' (Inl (fallback\<lparr>re_state := None\<rparr>)) opts (Some px) = Inr True" for px
    using e by (simp add: matchBase_def posix_basename_root assms(9))
  have "test env (JStr ''/'') (fallback\<lparr>re_state := None\<rparr>) opts (Some str) px
      = Inr \<lparr>t_isMatch = True, t_match = MBool True, t_output = ''/''\<rparr>" for px
    using assms(2,6,7) b by (auto simp: test_def Let_def toPosixSlashes_def)
  then show "fst (invoke env (JStr str) opts returnState (JStr ''/'') False) = Inr (RBool True)"
    using assms(1,8) t
    by (simp add: invoke_def makeRe_def assms(3) Let_def)
qed

theorem fallback_accepts_empty_base_name_witness:
  "toRegex sample_env ''^(?:[)$'' (no_options\<lparr>options.matchBase := True\<rparr>) = Inr fallback
   \<and> fst (invoke sample_env (JStr ''['') (no_options\<lparr>options.matchBase := True\<rparr>) False
          (JStr ''/'') False) = Inr (RBool True)
   \<and> fst (invoke sample_env (JStr ''a'') (no_options\<lparr>options.matchBase := True, flags := Some ''z''\<rparr>)
          False (JStr ''/'') False) = Inr (RBool True)"
proof -
  let ?opts = "no_options\<lparr>options.matchBase := True\<rparr>"
  let ?flagged = "no_options\<lparr>options.matchBase := True, flags := Some ''z''\<rparr>"
  have 1: "''['' \<noteq> []" and 2: "''['' \<noteq> ''/''" by simp_all
  have 3: "compile_output sample_env (strip_dot_slash ''['') ?opts
      = (\<lparr>s_output = Some ''['', negated = False, s_fastpaths = False\<rparr>, Some ''['')"
    by code_simp
  have 4: "RegExp sample_env (assemble ?opts \<lparr>s_output = Some ''['', negated = False, s_fastpaths = False\<rparr>
      (Some ''['')) (regex_flags ?opts) = None"
    by code_simp
  have 5: "\<not> debug ?opts" and 6: "options.matchBase ?opts" and 7: "format ?opts = None"
    and 8: "\<not> truthy (ignore ?opts)"
    by (simp_all add: no_options_def)
  have 9: "path_basename sample_env ''/'' = []" by code_simp
  have a: "assemble ?opts \<lparr>s_output = Some ''['', negated = False, s_fastpaths = False\<rparr> (Some ''['')
      = ''^(?:[)$''"
    by code_simp
  have f1: "''a'' \<noteq> []" and f2: "''a'' \<noteq> ''/''" by simp_all
  have f3: "compile_output sample_env (strip_dot_slash ''a'') ?flagged
      = (\<lparr>s_output = None, negated = False, s_fastpaths = True\<rparr>, Some ''a'')"
    by code_simp
  have f4: "RegExp sample_env (assemble ?flagged \<lparr>s_output = None, negated = False, s_fastpaths = True\<rparr>
      (Some ''a'')) (regex_flags ?flagged) = None"
    by code_simp
  have f5: "\<not> debug ?flagged" and f6: "options.matchBase ?flagged" and f7: "format ?flagged = None"
    and f8: "\<not> truthy (ignore ?flagged)"
    by (simp_all add: no_options_def)
  show ?thesis
    using fallback_accepts_empty_base_name [OF 1 2 3 4 5 6 7 8 9, of False]
      fallback_accepts_empty_base_name [OF f1 f2 f3 f4 f5 f6 f7 f8 9, of False] a
    by simp
qed

subsection \<open>\<open>join\<close> and \<open>resolve\<close>\<close>

lemma split_slash_nonempty: "split_slash s \<noteq> []"
  by (induction s) (auto split: list.splits)

lemma split_slash_append:
  "split_slash (xs @ CHR ''/'' # ys) = split_slash xs @ split_slash ys"
proof (induction xs)
  case Nil
  show ?case using split_slash_nonempty [of ys] by (cases "split_slash ys") auto
next
  case (Cons c xs)
  obtain seg rest where x: "split_slash xs = seg # rest"
    using split_slash_nonempty [of xs] by (cases "split_slash xs") auto
  show ?case using Cons x by simp
qed




lemma join_slash_snoc:
  "join_slash (segs @ [z]) = (if segs = [] then z else join_slash segs @ ''/'' @ z)"
  by (cases segs) (simp_all add: join_slash_def)




lemma normalizeString_glob:
  "normalizeString (b @ ''/*.js'') a
     = (if foldl (segment a) [] (split_slash b) = [] then ''*.js''
        else normalizeString b a @ ''/*.js'')"
proof -
  have s: "split_slash (b @ ''/*.js'') = split_slash b @ [''*.js'']"
    using split_slash_append [of b "''*.js''"] by simp
  show ?thesis
    by (simp add: normalizeString_def s join_slash_snoc segment_def)
qed










end
